theory Spec2Isabelle
  imports Complex_Main "HOL-Library.Sublist" "HOL-Library.Multiset"
begin

section \<open>YouTube sentiment analysis: the comment pipeline\<close>

text \<open>
  A shallow embedding of the comment ingestion and enrichment pipeline of the repository
  (\<^verbatim>\<open>youtube_api.py\<close>, \<^verbatim>\<open>language_processor.py\<close>, \<^verbatim>\<open>sentiment_analyzer.py\<close>,
  \<^verbatim>\<open>main.py\<close>, \<^verbatim>\<open>dashboard.py\<close>, \<^verbatim>\<open>app.py\<close>).

  Conventions of the model.
  \<^item> The text of a comment, a Python \<^verbatim>\<open>str\<close>, is a list of Unicode code points
    (\<open>ustring\<close>). What Python takes from the Unicode character database (\<^verbatim>\<open>isspace\<close>,
    \<^verbatim>\<open>isalnum\<close>, \<^verbatim>\<open>lower\<close>, the regex classes \<^verbatim>\<open>\s\<close> and \<^verbatim>\<open>\w\<close>) is a parameter of
    the model, so that what is proved holds whatever these tables are. The address of a
    video, which the code examines with ASCII patterns only, is a \<^typ>\<open>string\<close>.
  \<^item> A Python \<^verbatim>\<open>float\<close> (the polarity) is a \<^typ>\<open>real\<close>; the thresholds \<^verbatim>\<open>0.1\<close> and
    \<^verbatim>\<open>-0.1\<close> are the reals of that name.
  \<^item> The external libraries (language detector, translation backend, polarity scorer,
    comment API) are parameters of the functions that call them: each is a function to an
    outcome that is either a value or a raised exception.
  \<^item> A raised exception is the \<open>Inl\<close> of a sum type; \<^verbatim>\<open>try ... except Exception\<close> is
    a case distinction on it.
\<close>

subsection \<open>Exceptions and the log of external calls\<close>

datatype exn = ValueError string | Exception string

text \<open>A request to \<^verbatim>\<open>youtube.commentThreads().list(...)\<close>: the arguments the code varies.\<close>

record request =
  videoId :: string
  maxResults :: int
  pageToken :: "string option"

datatype call = DetectCall "nat list" | TranslateCall "nat list" | ApiCall request

text \<open>
  A computation gives the external calls it made, in order, and either the exception it
  raised (\<open>Inl\<close>) or its value (\<open>Inr\<close>).
\<close>

type_synonym 'a io = "call list \<times> (exn + 'a)"

definition ret :: "'a \<Rightarrow> 'a io" where
  "ret x = ([], Inr x)"

definition raise :: "exn \<Rightarrow> 'a io" where
  "raise e = ([], Inl e)"

definition bind_io :: "'a io \<Rightarrow> ('a \<Rightarrow> 'b io) \<Rightarrow> 'b io" where
  "bind_io m f =
     (case m of
        (tr, Inl e) \<Rightarrow> (tr, Inl e)
      | (tr, Inr x) \<Rightarrow> (case f x of (tr', r) \<Rightarrow> (tr @ tr', r)))"

text \<open>\<^verbatim>\<open>try: m  except Exception: h\<close>, where the handler is itself a computation.\<close>

definition try_except :: "'a io \<Rightarrow> (exn \<Rightarrow> 'a io) \<Rightarrow> 'a io" where
  "try_except m h =
     (case m of
        (tr, Inl e) \<Rightarrow> (case h e of (tr', r) \<Rightarrow> (tr @ tr', r))
      | (tr, Inr x) \<Rightarrow> (tr, Inr x))"

subsection \<open>Strings\<close>

text \<open>
  The text of a comment is a list of code points. \<open>ustr\<close> gives the code points of a
  literal of the program; the literals are all ASCII.
\<close>

type_synonym ustring = "nat list"

definition ustr :: "string \<Rightarrow> ustring" where
  "ustr s = map of_char s"

text \<open>
  What Python takes from the Unicode character database: \<^verbatim>\<open>ch.isspace()\<close>, which also
  says what \<^verbatim>\<open>s.strip()\<close> removes, \<^verbatim>\<open>ch.isalnum()\<close>, \<^verbatim>\<open>s.lower()\<close>, and the classes
  \<^verbatim>\<open>\s\<close> and \<^verbatim>\<open>\w\<close> of \<^verbatim>\<open>re\<close>. The program leaves them to Python, and the model takes them
  as the parameter \<open>u\<close> of every function that uses one of them.
\<close>

record unicode =
  isspace :: "nat \<Rightarrow> bool"
  isalnum :: "nat \<Rightarrow> bool"
  lower :: "ustring \<Rightarrow> ustring"
  re_space :: "nat \<Rightarrow> bool"
  re_word :: "nat \<Rightarrow> bool"

definition strip :: "unicode \<Rightarrow> ustring \<Rightarrow> ustring" where
  "strip u s = rev (dropWhile (isspace u) (rev (dropWhile (isspace u) s)))"

text \<open>\<^verbatim>\<open>sub in s\<close> on strings: \<open>sub\<close> occurs in \<open>s\<close> at some position.\<close>

fun contains :: "'a list \<Rightarrow> 'a list \<Rightarrow> bool" where
  "contains sub [] = (sub = [])"
| "contains sub (c # s) = (take (length sub) (c # s) = sub \<or> contains sub s)"

text \<open>\<^verbatim>\<open>s.find(sub, start)\<close>: the first position from \<open>start\<close> on, or \<open>-1\<close>.\<close>

fun find_from :: "string \<Rightarrow> string \<Rightarrow> nat \<Rightarrow> nat \<Rightarrow> int" where
  "find_from sub s i 0 = (if take (length sub) (drop i s) = sub \<and> i \<le> length s then int i else - 1)"
| "find_from sub s i (Suc fuel) =
     (if take (length sub) (drop i s) = sub \<and> i \<le> length s then int i
      else find_from sub s (Suc i) fuel)"

definition find :: "string \<Rightarrow> string \<Rightarrow> nat \<Rightarrow> int" where
  "find s sub start = find_from sub s start (length s - start)"

text \<open>\<^verbatim>\<open>xs[:n]\<close>: a negative \<open>n\<close> counts from the end.\<close>

definition slice_to :: "int \<Rightarrow> 'a list \<Rightarrow> 'a list" where
  "slice_to n xs = (if 0 \<le> n then take (nat n) xs else take (length xs - nat (- n)) xs)"

subsection \<open>Regular expressions (the fragment of \<^verbatim>\<open>re\<close> that the patterns use)\<close>

text \<open>
  \<open>WordB w\<close> is \<^verbatim>\<open>\b\<close> where \<open>w\<close> is the class \<^verbatim>\<open>\w\<close>; \<open>Eol nl\<close> is \<^verbatim>\<open>$\<close> where \<open>nl\<close> is the
  newline character.
\<close>

datatype 'c regex =
    Lit "'c list"
  | Star "'c \<Rightarrow> bool"
  | Plus "'c \<Rightarrow> bool"
  | Rep nat "'c \<Rightarrow> bool"
  | WordB "'c \<Rightarrow> bool"
  | Bol
  | Eol 'c
  | Seq "'c regex" "'c regex"
  | Alt "'c regex" "'c regex"
  | Opt "'c regex"
  | Group nat "'c regex"

type_synonym groups = "nat \<rightharpoonup> (nat \<times> nat)"

record match =
  span :: "nat \<times> nat"
  captured :: groups

fun first_some :: "('a \<Rightarrow> 'b option) \<Rightarrow> 'a list \<Rightarrow> 'b option" where
  "first_some f [] = None"
| "first_some f (x # xs) = (case f x of Some y \<Rightarrow> Some y | None \<Rightarrow> first_some f xs)"

text \<open>The character at position \<open>i\<close>, or the one before it, is a word character.\<close>

definition word_at :: "('c \<Rightarrow> bool) \<Rightarrow> 'c list \<Rightarrow> nat \<Rightarrow> bool" where
  "word_at w s i = (i < length s \<and> w (s ! i))"

definition word_before :: "('c \<Rightarrow> bool) \<Rightarrow> 'c list \<Rightarrow> nat \<Rightarrow> bool" where
  "word_before w s i = (0 < i \<and> i \<le> length s \<and> w (s ! (i - 1)))"

text \<open>
  A backtracking matcher, as \<^verbatim>\<open>re\<close> is: \<open>rmatch r s i g k\<close> matches \<open>r\<close> in \<open>s\<close> from
  position \<open>i\<close> with the captures \<open>g\<close> so far and hands each way of matching, longest
  repetition and left alternative first, to the rest of the pattern \<open>k\<close>, until one
  succeeds.
\<close>

fun rmatch :: "'c regex \<Rightarrow> 'c list \<Rightarrow> nat \<Rightarrow> groups \<Rightarrow> (nat \<Rightarrow> groups \<Rightarrow> 'r option) \<Rightarrow> 'r option" where
  "rmatch (Lit l) s i g k = (if take (length l) (drop i s) = l then k (i + length l) g else None)"
| "rmatch (Star p) s i g k =
     first_some (\<lambda>j. k (i + j) g) (rev [0 ..< Suc (length (takeWhile p (drop i s)))])"
| "rmatch (Plus p) s i g k =
     first_some (\<lambda>j. k (i + j) g) (rev [1 ..< Suc (length (takeWhile p (drop i s)))])"
| "rmatch (Rep n p) s i g k =
     (if n \<le> length (takeWhile p (drop i s)) then k (i + n) g else None)"
| "rmatch (WordB w) s i g k = (if word_before w s i \<noteq> word_at w s i then k i g else None)"
| "rmatch Bol s i g k = (if i = 0 then k i g else None)"
| "rmatch (Eol nl) s i g k =
     (if i = length s \<or> (Suc i = length s \<and> s ! i = nl) then k i g else None)"
| "rmatch (Seq a b) s i g k = rmatch a s i g (\<lambda>j g'. rmatch b s j g' k)"
| "rmatch (Alt a b) s i g k =
     (case rmatch a s i g k of Some r \<Rightarrow> Some r | None \<Rightarrow> rmatch b s i g k)"
| "rmatch (Opt a) s i g k =
     (case rmatch a s i g k of Some r \<Rightarrow> Some r | None \<Rightarrow> k i g)"
| "rmatch (Group n a) s i g k = rmatch a s i g (\<lambda>j g'. k j (g'(n \<mapsto> (i, j))))"

definition re_match_at :: "'c regex \<Rightarrow> 'c list \<Rightarrow> nat \<Rightarrow> match option" where
  "re_match_at r s i = rmatch r s i Map.empty (\<lambda>j g. Some \<lparr>span = (i, j), captured = g\<rparr>)"

definition re_match :: "'c regex \<Rightarrow> 'c list \<Rightarrow> match option" where
  "re_match r s = re_match_at r s 0"

definition re_search :: "'c regex \<Rightarrow> 'c list \<Rightarrow> match option" where
  "re_search r s = first_some (re_match_at r s) [0 ..< Suc (length s)]"

text \<open>\<^verbatim>\<open>m.group(n)\<close> for a group that took part in the match.\<close>

definition group :: "'c list \<Rightarrow> match \<Rightarrow> nat \<Rightarrow> 'c list option" where
  "group s m n = (case captured m n of None \<Rightarrow> None | Some (i, j) \<Rightarrow> Some (take (j - i) (drop i s)))"

subsection \<open>Language detection and translation (\<^verbatim>\<open>language_processor.py\<close>)\<close>

text \<open>What \<^verbatim>\<open>langdetect.detect(text)\<close> can do: raise, or give a language code.\<close>

datatype detector_outcome = DetectRaises string | Detected ustring

definition call_detect :: "(ustring \<Rightarrow> detector_outcome) \<Rightarrow> ustring \<Rightarrow> ustring io" where
  "call_detect detect text =
     ([DetectCall text],
      case detect text of DetectRaises msg \<Rightarrow> Inl (Exception msg) | Detected code \<Rightarrow> Inr code)"

text \<open>The body of the \<^verbatim>\<open>try\<close> block of \<^verbatim>\<open>detect_language\<close>.\<close>

definition detect_language_try ::
  "unicode \<Rightarrow> (ustring \<Rightarrow> detector_outcome) \<Rightarrow> ustring \<Rightarrow> ustring io" where
  "detect_language_try u detect text =
     (if text = [] \<or> strip u text = [] then ret (ustr ''unknown'')
      else if list_all (\<lambda>ch. \<not> isalnum u ch) text then ret (ustr ''unknown'')
      else call_detect detect text)"

definition detect_language ::
  "unicode \<Rightarrow> (ustring \<Rightarrow> detector_outcome) \<Rightarrow> ustring \<Rightarrow> ustring io" where
  "detect_language u detect text =
     try_except (detect_language_try u detect text) (\<lambda>e. ret (ustr ''unknown''))"

text \<open>
  What \<^verbatim>\<open>GoogleTranslator(source='auto', target='en').translate(text)\<close> can do: raise,
  give \<^verbatim>\<open>None\<close>, or give a string.
\<close>

datatype translator_outcome = TranslateRaises string | TranslatedNone | Translated ustring

definition call_translate ::
  "(ustring \<Rightarrow> translator_outcome) \<Rightarrow> ustring \<Rightarrow> ustring option io" where
  "call_translate translate text =
     ([TranslateCall text],
      case translate text of
        TranslateRaises msg \<Rightarrow> Inl (Exception msg)
      | TranslatedNone \<Rightarrow> Inr None
      | Translated t \<Rightarrow> Inr (Some t))"

text \<open>The body of the \<^verbatim>\<open>try\<close> block of \<^verbatim>\<open>translate_to_english\<close>.\<close>

definition translate_to_english_try ::
  "unicode \<Rightarrow> (ustring \<Rightarrow> detector_outcome) \<Rightarrow> (ustring \<Rightarrow> translator_outcome)
   \<Rightarrow> ustring \<Rightarrow> ustring option \<Rightarrow> ustring io" where
  "translate_to_english_try u detect translate text src_lang =
     (if text = [] \<or> strip u text = [] then ret text
      else bind_io (case src_lang of None \<Rightarrow> detect_language u detect text | Some l \<Rightarrow> ret l)
        (\<lambda>src_lang.
           if src_lang \<in> set [ustr ''en'', ustr ''unknown''] then ret text
           else bind_io (call_translate translate text)
             (\<lambda>translated. case translated of None \<Rightarrow> ret text | Some t \<Rightarrow> ret t)))"

definition translate_to_english ::
  "unicode \<Rightarrow> (ustring \<Rightarrow> detector_outcome) \<Rightarrow> (ustring \<Rightarrow> translator_outcome)
   \<Rightarrow> ustring \<Rightarrow> ustring option \<Rightarrow> ustring io" where
  "translate_to_english u detect translate text src_lang =
     try_except (translate_to_english_try u detect translate text src_lang) (\<lambda>e. ret text)"

subsection \<open>Sentiment scoring (\<^verbatim>\<open>sentiment_analyzer.analyze_sentiment\<close>)\<close>

text \<open>
  What \<^verbatim>\<open>TextBlob(text).sentiment\<close> can do: raise, give an object without a
  \<^verbatim>\<open>polarity\<close> attribute, or give one with a polarity.
\<close>

datatype scorer_outcome = ScorerRaises string | NoPolarity | Polarity real

record sentiment_result =
  sentiment :: string
  polarity :: real

text \<open>The body of the \<^verbatim>\<open>try\<close> block.\<close>

definition analyze_sentiment_try :: "('t \<Rightarrow> scorer_outcome) \<Rightarrow> 't \<Rightarrow> sentiment_result io" where
  "analyze_sentiment_try scorer text =
     bind_io (case scorer text of
                ScorerRaises msg \<Rightarrow> raise (Exception msg)
              | NoPolarity \<Rightarrow> ret 0
              | Polarity p \<Rightarrow> ret p)
       (\<lambda>polarity.
          ret \<lparr>sentiment = (if polarity > 0.1 then ''Positive''
                            else if polarity < - 0.1 then ''Negative''
                            else ''Neutral''),
               polarity = polarity\<rparr>)"

definition analyze_sentiment :: "('t \<Rightarrow> scorer_outcome) \<Rightarrow> 't \<Rightarrow> sentiment_result io" where
  "analyze_sentiment scorer text =
     try_except (analyze_sentiment_try scorer text)
       (\<lambda>e. ret \<lparr>sentiment = ''Neutral'', polarity = 0\<rparr>)"

subsection \<open>Toxicity detection (\<^verbatim>\<open>sentiment_analyzer.detect_toxicity\<close>)\<close>

definition toxicity_keywords :: "ustring list" where
  "toxicity_keywords = map ustr
     [''hate'', ''kill'', ''stupid'', ''idiot'', ''dumb'', ''worthless'', ''disgusting'',
      ''disgust'', ''shut up'', ''shutup'', ''shut your'', ''go to hell'', ''damn'',
      ''retard'', ''retarded'', ''moron'', ''moronic'', ''crap'', ''trash'', ''garbage'',
      ''useless'', ''pathetic'', ''awful'', ''terrible'', ''horrible'', ''horrid'']"

fun seqs :: "'c regex list \<Rightarrow> 'c regex" where
  "seqs [] = Lit []"
| "seqs [r] = r"
| "seqs (r # rs) = Seq r (seqs rs)"

fun alts :: "'c regex list \<Rightarrow> 'c regex" where
  "alts [] = Lit []"
| "alts [r] = r"
| "alts (r # rs) = Alt r (alts rs)"

definition toxic_patterns :: "unicode \<Rightarrow> nat regex list" where
  "toxic_patterns u =
     [seqs [WordB (re_word u), Lit (ustr ''you''), Plus (re_space u), Lit (ustr ''are''),
            Plus (re_space u),
            Opt (Group 1 (seqs [Lit (ustr ''a''), Plus (re_space u)])),
            Group 2 (alts [Lit (ustr ''idiot''), Lit (ustr ''stupid''), Lit (ustr ''dumb''),
                           Lit (ustr ''moron''), Lit (ustr ''retard'')])],
      seqs [WordB (re_word u), Lit (ustr ''fuck''), WordB (re_word u)],
      seqs [WordB (re_word u), Lit (ustr ''shit''), WordB (re_word u)],
      seqs [WordB (re_word u), Lit (ustr ''die''), WordB (re_word u)],
      seqs [WordB (re_word u), Lit (ustr ''kys''), WordB (re_word u)]]"

text \<open>The two \<^verbatim>\<open>for\<close> loops, each returning at its first hit.\<close>

fun keyword_loop :: "ustring list \<Rightarrow> ustring \<Rightarrow> bool" where
  "keyword_loop [] text_lower = False"
| "keyword_loop (keyword # keywords) text_lower =
     (if contains keyword text_lower then True else keyword_loop keywords text_lower)"

fun pattern_loop :: "nat regex list \<Rightarrow> ustring \<Rightarrow> bool" where
  "pattern_loop [] text_lower = False"
| "pattern_loop (pattern # patterns) text_lower =
     (if re_search pattern text_lower \<noteq> None then True else pattern_loop patterns text_lower)"

definition detect_toxicity :: "unicode \<Rightarrow> ustring \<Rightarrow> bool" where
  "detect_toxicity u text =
     (let text_lower = lower u text in
      if keyword_loop toxicity_keywords text_lower then True
      else if pattern_loop (toxic_patterns u) text_lower then True
      else False)"

subsection \<open>Comments\<close>

text \<open>The dictionary that the fetcher builds for each item of a page.\<close>

record raw_comment =
  comment_id :: string
  author :: string
  "text" :: ustring
  published_at :: string
  like_count :: int
  updated_at :: string

text \<open>The raw comment with the five derived entries of \<^verbatim>\<open>process_comments\<close>.\<close>

record processed_comment = raw_comment +
  original_language :: ustring
  translated_text :: ustring
  sentiment :: string
  polarity :: real
  is_toxic :: bool


subsection \<open>Resolving the video identifier (\<^verbatim>\<open>youtube_api.get_video_id\<close>)\<close>

text \<open>The class \<^verbatim>\<open>[a-zA-Z0-9_-]\<close> and the class of \<^verbatim>\<open>.\<close> (anything but a newline).\<close>

definition id_char :: "char \<Rightarrow> bool" where
  "id_char c = (let n = (of_char c :: nat) in
     (97 \<le> n \<and> n \<le> 122) \<or> (65 \<le> n \<and> n \<le> 90) \<or> (48 \<le> n \<and> n \<le> 57)
     \<or> c = CHR ''_'' \<or> c = CHR ''-'')"

definition any_char :: "char \<Rightarrow> bool" where
  "any_char c = (c \<noteq> CHR 0x0A)"

definition patterns :: "char regex list" where
  "patterns =
     [seqs [alts [Lit ''youtube.com/watch?v='', Lit ''youtu.be/'', Lit ''youtube.com/embed/''],
            Group 1 (Rep 11 id_char)],
      seqs [Lit ''youtube.com/watch?'', Star any_char, Lit ''v='', Group 1 (Rep 11 id_char)],
      seqs [Lit ''youtu.be/'', Group 1 (Rep 11 id_char)],
      seqs [Lit ''youtube.com/embed/'', Group 1 (Rep 11 id_char)]]"

text \<open>The loop over the patterns, returning group 1 of the first pattern that is found.\<close>

fun try_patterns :: "char regex list \<Rightarrow> string \<Rightarrow> string option" where
  "try_patterns [] url = None"
| "try_patterns (pattern # rest) url =
     (case re_search pattern url of
        Some m \<Rightarrow> group url m 1
      | None \<Rightarrow> try_patterns rest url)"

definition get_video_id :: "string \<Rightarrow> string option" where
  "get_video_id url =
     (if url = [] then None
      else case try_patterns patterns url of
        Some video_id \<Rightarrow> Some video_id
      | None \<Rightarrow>
          if contains ''v='' url then
            (let start = nat (find url ''v='' 0 + 2);
                 end0 = find url ''&'' start;
                 end1 = (if end0 = - 1 then int (length url) else end0);
                 video_id = take (nat end1 - start) (drop start url)
             in if length video_id = 11 \<and> re_match (seqs [Bol, Plus id_char, Eol (CHR 0x0A)]) video_id \<noteq> None
                then Some video_id else None)
          else None)"

subsection \<open>The paginated fetcher (\<^verbatim>\<open>youtube_api.fetch_comments\<close>, \<^verbatim>\<open>fetch_all_comments\<close>)\<close>

text \<open>
  One item of a page, with the entries the fetcher reads, and the response to
  \<^verbatim>\<open>request.execute()\<close>.
\<close>

record item =
  item_id :: string
  authorDisplayName :: string
  textDisplay :: ustring
  publishedAt :: string
  likeCount :: int
  updatedAt :: string

record response =
  items :: "item list"
  nextPageToken :: "string option"

datatype api_outcome = ApiRaises string | ApiReturns response

text \<open>
  The comment API: its answer to a request may depend on the request and on how many
  requests came before it.
\<close>

type_synonym api = "nat \<Rightarrow> request \<Rightarrow> api_outcome"

definition comment_of_item :: "item \<Rightarrow> raw_comment" where
  "comment_of_item it =
     \<lparr>comment_id = item_id it, author = authorDisplayName it, text = textDisplay it,
      published_at = publishedAt it, like_count = likeCount it, updated_at = updatedAt it\<rparr>"

text \<open>\<^verbatim>\<open>not x\<close> for an optional string: \<^verbatim>\<open>None\<close> or the empty string.\<close>

definition falsy :: "string option \<Rightarrow> bool" where
  "falsy x = (case x of None \<Rightarrow> True | Some s \<Rightarrow> s = [])"

text \<open>
  The \<^verbatim>\<open>while True\<close> loop of \<^verbatim>\<open>fetch_all_comments\<close>. \<open>tr\<close> is the list of requests made
  so far. The loop need not end: \<open>None\<close> is its running forever.
\<close>

partial_function (option) fetch_all_loop ::
  "api \<Rightarrow> string \<Rightarrow> call list \<Rightarrow> raw_comment list \<Rightarrow> string option \<Rightarrow> raw_comment list io option" where
  "fetch_all_loop execute video_id tr comments next_page_token =
     (let request = \<lparr>videoId = video_id, maxResults = 100, pageToken = next_page_token\<rparr> in
      case execute (length tr) request of
        ApiRaises e \<Rightarrow>
          Some (tr @ [ApiCall request], Inl (Exception (''Error fetching comments: '' @ e)))
      | ApiReturns response \<Rightarrow>
          (let comments' = comments @ map comment_of_item (items response);
               next_page_token' = nextPageToken response
           in if falsy next_page_token' then Some (tr @ [ApiCall request], Inr comments')
              else fetch_all_loop execute video_id (tr @ [ApiCall request]) comments' next_page_token'))"

declare fetch_all_loop.simps [code]

definition fetch_all_comments ::
  "string option \<Rightarrow> api \<Rightarrow> string \<Rightarrow> raw_comment list io option" where
  "fetch_all_comments YOUTUBE_API_KEY execute video_url =
     (let video_id = get_video_id video_url in
      if falsy video_id then
        Some (raise (ValueError ''Invalid YouTube URL or unable to extract video ID''))
      else if falsy YOUTUBE_API_KEY then
        Some (raise (ValueError ''YouTube API key not found. Please set YOUTUBE_API_KEY in .env file''))
      else fetch_all_loop execute (the video_id) [] [] None)"

text \<open>The \<^verbatim>\<open>while len(comments) < max_results\<close> loop of \<^verbatim>\<open>fetch_comments\<close>.\<close>

partial_function (option) fetch_comments_loop ::
  "api \<Rightarrow> string \<Rightarrow> int \<Rightarrow> call list \<Rightarrow> raw_comment list \<Rightarrow> string option \<Rightarrow> raw_comment list io option" where
  "fetch_comments_loop execute video_id max_results tr comments next_page_token =
     (if int (length comments) < max_results then
        (let request = \<lparr>videoId = video_id,
                         maxResults = min 100 (max_results - int (length comments)),
                         pageToken = next_page_token\<rparr> in
         case execute (length tr) request of
           ApiRaises e \<Rightarrow>
             Some (tr @ [ApiCall request], Inl (Exception (''Error fetching comments: '' @ e)))
         | ApiReturns response \<Rightarrow>
             (let comments' = comments @ map comment_of_item (items response);
                  next_page_token' = nextPageToken response
              in if falsy next_page_token' then Some (tr @ [ApiCall request], Inr comments')
                 else fetch_comments_loop execute video_id max_results
                        (tr @ [ApiCall request]) comments' next_page_token'))
      else Some (tr, Inr comments))"

declare fetch_comments_loop.simps [code]

definition MAX_COMMENTS :: int where
  "MAX_COMMENTS = 1000"

definition fetch_comments ::
  "string option \<Rightarrow> api \<Rightarrow> string \<Rightarrow> int \<Rightarrow> raw_comment list io option" where
  "fetch_comments YOUTUBE_API_KEY execute video_url max_results =
     (let video_id = get_video_id video_url in
      if falsy video_id then
        Some (raise (ValueError ''Invalid YouTube URL or unable to extract video ID''))
      else if falsy YOUTUBE_API_KEY then
        Some (raise (ValueError ''YouTube API key not found. Please set YOUTUBE_API_KEY in .env file''))
      else case fetch_comments_loop execute (the video_id) max_results [] [] None of
        None \<Rightarrow> None
      | Some m \<Rightarrow> Some (bind_io m (\<lambda>comments. ret (slice_to max_results comments))))"

subsection \<open>The enrichment pipeline (\<^verbatim>\<open>main.process_comments\<close>)\<close>

text \<open>One pass of the body of the \<^verbatim>\<open>for\<close> loop.\<close>

definition process_comment ::
  "unicode \<Rightarrow> (ustring \<Rightarrow> detector_outcome) \<Rightarrow> (ustring \<Rightarrow> translator_outcome)
   \<Rightarrow> (ustring \<Rightarrow> scorer_outcome) \<Rightarrow> raw_comment \<Rightarrow> processed_comment io" where
  "process_comment u detect translate scorer comment =
     bind_io (detect_language u detect (text comment)) (\<lambda>original_language.
     bind_io (if original_language \<noteq> ustr ''en''
              then translate_to_english u detect translate (text comment) None
              else ret (text comment)) (\<lambda>translated_text.
     bind_io (analyze_sentiment scorer translated_text) (\<lambda>sentiment_result.
     bind_io (ret (detect_toxicity u translated_text)) (\<lambda>is_toxic.
     ret (raw_comment.extend comment
            \<lparr>original_language = original_language,
             translated_text = translated_text,
             sentiment = sentiment_result.sentiment sentiment_result,
             polarity = sentiment_result.polarity sentiment_result,
             is_toxic = is_toxic\<rparr>)))))"

fun process_loop ::
  "unicode \<Rightarrow> (ustring \<Rightarrow> detector_outcome) \<Rightarrow> (ustring \<Rightarrow> translator_outcome)
   \<Rightarrow> (ustring \<Rightarrow> scorer_outcome) \<Rightarrow> raw_comment list \<Rightarrow> processed_comment list
   \<Rightarrow> processed_comment list io" where
  "process_loop u detect translate scorer [] processed_comments = ret processed_comments"
| "process_loop u detect translate scorer (comment # comments) processed_comments =
     bind_io (process_comment u detect translate scorer comment) (\<lambda>processed_comment.
       process_loop u detect translate scorer comments (processed_comments @ [processed_comment]))"

definition process_comments ::
  "unicode \<Rightarrow> string option \<Rightarrow> api \<Rightarrow> (ustring \<Rightarrow> detector_outcome)
   \<Rightarrow> (ustring \<Rightarrow> translator_outcome) \<Rightarrow> (ustring \<Rightarrow> scorer_outcome) \<Rightarrow> string \<Rightarrow> int option
   \<Rightarrow> processed_comment list io option" where
  "process_comments u YOUTUBE_API_KEY execute detect translate scorer video_url max_comments =
     (case (case max_comments of
              None \<Rightarrow> fetch_all_comments YOUTUBE_API_KEY execute video_url
            | Some n \<Rightarrow> fetch_comments YOUTUBE_API_KEY execute video_url n) of
        None \<Rightarrow> None
      | Some fetched \<Rightarrow>
          Some (bind_io fetched (\<lambda>comments. process_loop u detect translate scorer comments [])))"

subsection \<open>Aggregation (\<^verbatim>\<open>main.get_analysis_summary\<close>, \<^verbatim>\<open>app.api_analyze\<close>, \<^verbatim>\<open>dashboard.get_top_comments\<close>)\<close>

text \<open>
  \<^verbatim>\<open>collections.Counter\<close> and the \<^verbatim>\<open>dict\<close> made of it: the keys in the order of their first
  occurrence, each with its count.
\<close>

fun counter_add :: "'a \<Rightarrow> ('a \<times> nat) list \<Rightarrow> ('a \<times> nat) list" where
  "counter_add x [] = [(x, 1)]"
| "counter_add x ((k, n) # kvs) = (if k = x then (k, n + 1) # kvs else (k, n) # counter_add x kvs)"

definition Counter :: "'a list \<Rightarrow> ('a \<times> nat) list" where
  "Counter xs = foldl (\<lambda>acc x. counter_add x acc) [] xs"

definition dict_keys :: "('k \<times> 'v) list \<Rightarrow> 'k list" where
  "dict_keys d = map fst d"

definition dict_values :: "('k \<times> 'v) list \<Rightarrow> 'v list" where
  "dict_values d = map snd d"

text \<open>\<^verbatim>\<open>d.get(k, default)\<close>: the default stands in for an absent key.\<close>

definition dict_get :: "('k \<times> 'v) list \<Rightarrow> 'k \<Rightarrow> 'v \<Rightarrow> 'v" where
  "dict_get d k dflt = (case map_of d k of None \<Rightarrow> dflt | Some v \<Rightarrow> v)"

record samples =
  positive :: "ustring list"
  negative :: "ustring list"
  neutral :: "ustring list"

record summary =
  total_comments :: nat
  sentiment_distribution :: "(string \<times> nat) list"
  language_distribution :: "(ustring \<times> nat) list"
  toxic_comments_count :: nat
  sample_comments :: samples

text \<open>\<^verbatim>\<open>c['text'][:100] + '...' if len(c['text']) > 100 else c['text']\<close>\<close>

definition excerpt :: "processed_comment \<Rightarrow> ustring" where
  "excerpt c = (if length (text c) > 100 then slice_to 100 (text c) @ ustr ''...'' else text c)"

definition get_analysis_summary :: "processed_comment list \<Rightarrow> summary" where
  "get_analysis_summary processed_comments =
     (let sentiments = map sentiment processed_comments;
          languages = map original_language processed_comments;
          toxic_comments = filter is_toxic processed_comments;
          sentiment_distribution = Counter sentiments;
          language_distribution = Counter languages;
          positive_comments = slice_to 3 (filter (\<lambda>c. sentiment c = ''Positive'') processed_comments);
          negative_comments = slice_to 3 (filter (\<lambda>c. sentiment c = ''Negative'') processed_comments);
          neutral_comments = slice_to 3 (filter (\<lambda>c. sentiment c = ''Neutral'') processed_comments);
          sample_comments = \<lparr>positive = map excerpt positive_comments,
                             negative = map excerpt negative_comments,
                             neutral = map excerpt neutral_comments\<rparr>
      in \<lparr>total_comments = length processed_comments,
          sentiment_distribution = sentiment_distribution,
          language_distribution = language_distribution,
          toxic_comments_count = length toxic_comments,
          sample_comments = sample_comments\<rparr>)"

text \<open>The \<^verbatim>\<open>sample_comments\<close> entry of the response of \<^verbatim>\<open>app.api_analyze\<close>.\<close>

definition api_sample_comments :: "processed_comment list \<Rightarrow> samples" where
  "api_sample_comments processed_comments =
     \<lparr>positive = slice_to 5 (map text (filter (\<lambda>c. sentiment c = ''Positive'') processed_comments)),
      negative = slice_to 5 (map text (filter (\<lambda>c. sentiment c = ''Negative'') processed_comments)),
      neutral = slice_to 5 (map text (filter (\<lambda>c. sentiment c = ''Neutral'') processed_comments))\<rparr>"

text \<open>
  The counts that \<^verbatim>\<open>web_dashboard.update_dashboard\<close> reads off the counter, each with the
  default \<open>0\<close>.
\<close>

definition dashboard_counts :: "processed_comment list \<Rightarrow> nat \<times> nat \<times> nat" where
  "dashboard_counts processed_data =
     (let sentiments = map sentiment processed_data;
          sentiment_counts = Counter sentiments
      in (dict_get sentiment_counts ''Positive'' 0,
          dict_get sentiment_counts ''Negative'' 0,
          dict_get sentiment_counts ''Neutral'' 0))"

text \<open>
  \<^verbatim>\<open>sorted(xs, key=key, reverse=reverse)\<close>: a stable sort; with \<^verbatim>\<open>reverse\<close> the list is
  reversed, sorted, and reversed again.
\<close>

definition sorted_py :: "('a \<Rightarrow> real) \<Rightarrow> bool \<Rightarrow> 'a list \<Rightarrow> 'a list" where
  "sorted_py key reverse xs = (if reverse then rev (sort_key key (rev xs)) else sort_key key xs)"

definition get_top_comments :: "processed_comment list \<Rightarrow> string \<Rightarrow> int \<Rightarrow> processed_comment list" where
  "get_top_comments comments_data label top_n =
     (let filtered_comments = filter (\<lambda>comment. sentiment comment = label) comments_data;
          sorted_comments =
            (if label = ''Positive'' then sorted_py polarity True filtered_comments
             else sorted_py polarity False filtered_comments)
      in slice_to top_n sorted_comments)"


subsection \<open>Spellings of a keyword\<close>

text \<open>
  A spelling of an ASCII word in upper and lower case is a text that \<open>map ascii_lower\<close>
  turns into the word. \<open>ascii_lowering u\<close> says of the table \<^verbatim>\<open>lower\<close> what \<^verbatim>\<open>str.lower\<close>
  does to the ASCII characters of a text: each becomes its lower-case ASCII character,
  whatever stands before and after (which may become other and more characters).
\<close>

definition ascii_lower :: "nat \<Rightarrow> nat" where
  "ascii_lower c = (if 65 \<le> c \<and> c \<le> 90 then c + 32 else c)"

definition ascii_lowering :: "unicode \<Rightarrow> bool" where
  "ascii_lowering u =
     (\<forall>a s b. (\<forall>c\<in>set s. c < 128) \<longrightarrow> (\<exists>x y. lower u (a @ s @ b) = x @ map ascii_lower s @ y))"

subsection \<open>Sample inputs\<close>

text \<open>A scorer that puts two texts on the thresholds and fails on every other text.\<close>

definition scorer_boundary :: "string \<Rightarrow> scorer_outcome" where
  "scorer_boundary t =
     (if t = ''fine'' then Polarity 0.1
      else if t = ''poor'' then Polarity (- 0.1)
      else ScorerRaises ''no text'')"

text \<open>Detectors that always answer French, always answer English, or always fail.\<close>

definition detect_fr :: "ustring \<Rightarrow> detector_outcome" where
  "detect_fr t = Detected (ustr ''fr'')"

definition detect_en :: "ustring \<Rightarrow> detector_outcome" where
  "detect_en t = Detected (ustr ''en'')"

definition detect_fails :: "ustring \<Rightarrow> detector_outcome" where
  "detect_fails t = DetectRaises ''No features in text.''"

text \<open>Translation backends that always answer the empty string, or always answer \<^verbatim>\<open>None\<close>.\<close>

definition translate_empty :: "ustring \<Rightarrow> translator_outcome" where
  "translate_empty t = Translated []"

definition translate_none :: "ustring \<Rightarrow> translator_outcome" where
  "translate_none t = TranslatedNone"

text \<open>A scorer that knows two words.\<close>

definition scorer_words :: "ustring \<Rightarrow> scorer_outcome" where
  "scorer_words t =
     (if contains (ustr ''Great'') t then Polarity 0.8
      else if contains (ustr ''stupid'') t then Polarity (- 0.6)
      else Polarity 0)"

text \<open>
  Tables for the sample texts, which are ASCII: on the ASCII code points they are the
  tables of Python; they know no other space, alphanumeric or cased character.
\<close>

definition ascii_isspace :: "nat \<Rightarrow> bool" where
  "ascii_isspace c = ((9 \<le> c \<and> c \<le> 13) \<or> (28 \<le> c \<and> c \<le> 32))"

definition ascii_isalnum :: "nat \<Rightarrow> bool" where
  "ascii_isalnum c = ((48 \<le> c \<and> c \<le> 57) \<or> (65 \<le> c \<and> c \<le> 90) \<or> (97 \<le> c \<and> c \<le> 122))"

definition ascii_tables :: unicode where
  "ascii_tables =
     \<lparr>isspace = ascii_isspace, isalnum = ascii_isalnum, lower = map ascii_lower,
      re_space = ascii_isspace, re_word = (\<lambda>c. ascii_isalnum c \<or> c = 95)\<rparr>"

subsection \<open>Page sequences of the comment API\<close>

text \<open>
  A run of a fetch is described by the responses \<open>rs\<close> that the API gives, page after page.
  \<open>requests_all\<close> and \<open>requests_upto\<close> are the requests that belong to such a sequence of
  pages: each carries the token of the page before it; the capped fetch asks for
  \<open>min 100 (N - fetched)\<close> items, where \<open>fetched\<close> counts the items of the pages before.
\<close>

fun requests_all :: "string \<Rightarrow> string option \<Rightarrow> response list \<Rightarrow> request list" where
  "requests_all vid tok [] = []"
| "requests_all vid tok (r # rs) =
     \<lparr>videoId = vid, maxResults = 100, pageToken = tok\<rparr> # requests_all vid (nextPageToken r) rs"

fun requests_upto :: "string \<Rightarrow> int \<Rightarrow> nat \<Rightarrow> string option \<Rightarrow> response list \<Rightarrow> request list" where
  "requests_upto vid N fetched tok [] = []"
| "requests_upto vid N fetched tok (r # rs) =
     \<lparr>videoId = vid, maxResults = min 100 (N - int fetched), pageToken = tok\<rparr>
       # requests_upto vid N (fetched + length (items r)) (nextPageToken r) rs"

text \<open>The API answers the requests \<open>qs\<close>, made as its calls number \<open>k\<close>, \<open>k + 1\<close>, ..., with \<open>rs\<close>.\<close>

fun answers :: "api \<Rightarrow> nat \<Rightarrow> request list \<Rightarrow> response list \<Rightarrow> bool" where
  "answers execute k [] [] = True"
| "answers execute k (q # qs) (r # rs) = (execute k q = ApiReturns r \<and> answers execute (Suc k) qs rs)"
| "answers execute k [] (r # rs) = False"
| "answers execute k (q # qs) [] = False"

text \<open>The token to send after the pages \<open>rs\<close>, and the comments and the number of items of the pages.\<close>

definition token_after :: "string option \<Rightarrow> response list \<Rightarrow> string option" where
  "token_after tok rs = (if rs = [] then tok else nextPageToken (last rs))"

definition comments_of :: "response list \<Rightarrow> raw_comment list" where
  "comments_of rs = concat (map (\<lambda>r. map comment_of_item (items r)) rs)"

definition count_items :: "response list \<Rightarrow> nat" where
  "count_items rs = length (concat (map items rs))"

text \<open>
  Every page of \<open>rs\<close> lets the capped loop go on: it has a next-page token and, with
  \<open>fetched\<close> items before \<open>rs\<close>, fewer than \<open>N\<close> items are there after it.
\<close>

fun continue_upto :: "int \<Rightarrow> nat \<Rightarrow> response list \<Rightarrow> bool" where
  "continue_upto N fetched [] = True"
| "continue_upto N fetched (r # rs) =
     (\<not> falsy (nextPageToken r) \<and> int (fetched + length (items r)) < N
      \<and> continue_upto N (fetched + length (items r)) rs)"

text \<open>
  What a run of \<^verbatim>\<open>fetch_all_comments\<close> that ends looks like: pages \<open>rs\<close> with tokens, then one
  more request, whose answer either is an error, which becomes the result, or a page without
  token, with which the result is complete.
\<close>

definition run_all ::
  "api \<Rightarrow> string \<Rightarrow> call list \<Rightarrow> raw_comment list \<Rightarrow> string option \<Rightarrow> raw_comment list io \<Rightarrow> bool" where
  "run_all execute vid tr comments tok y =
     (\<exists>rs. answers execute (length tr) (requests_all vid tok rs) rs
        \<and> (\<forall>r\<in>set rs. \<not> falsy (nextPageToken r))
        \<and> (let q = \<lparr>videoId = vid, maxResults = 100, pageToken = token_after tok rs\<rparr> in
            fst y = tr @ map ApiCall (requests_all vid tok rs) @ [ApiCall q]
            \<and> (case execute (length tr + length rs) q of
                  ApiRaises e \<Rightarrow> snd y = Inl (Exception (''Error fetching comments: '' @ e))
                | ApiReturns r \<Rightarrow>
                    falsy (nextPageToken r)
                    \<and> snd y = Inr (comments @ comments_of rs @ map comment_of_item (items r)))))"

text \<open>The same for the loop of \<^verbatim>\<open>fetch_comments\<close>, which may also end because the cap is reached.\<close>

definition run_upto ::
  "api \<Rightarrow> string \<Rightarrow> int \<Rightarrow> call list \<Rightarrow> raw_comment list \<Rightarrow> string option \<Rightarrow> raw_comment list io \<Rightarrow> bool" where
  "run_upto execute vid N tr comments tok y =
     (if int (length comments) < N then
        (\<exists>rs. answers execute (length tr) (requests_upto vid N (length comments) tok rs) rs
           \<and> continue_upto N (length comments) rs
           \<and> (let fetched = length comments + count_items rs;
                   q = \<lparr>videoId = vid, maxResults = min 100 (N - int fetched),
                        pageToken = token_after tok rs\<rparr> in
               fst y = tr @ map ApiCall (requests_upto vid N (length comments) tok rs) @ [ApiCall q]
               \<and> (case execute (length tr + length rs) q of
                     ApiRaises e \<Rightarrow> snd y = Inl (Exception (''Error fetching comments: '' @ e))
                   | ApiReturns r \<Rightarrow>
                       (falsy (nextPageToken r) \<or> N \<le> int (fetched + length (items r)))
                       \<and> snd y = Inr (comments @ comments_of rs @ map comment_of_item (items r)))))
      else y = (tr, Inr comments))"

text \<open>A comment API with three pages of two, two and one comments, and one that fails after its first page.\<close>

definition sample_item :: "string \<Rightarrow> string \<Rightarrow> item" where
  "sample_item i t =
     \<lparr>item_id = i, authorDisplayName = ''viewer'', textDisplay = ustr t,
      publishedAt = ''2024-05-01T10:00:00Z'', likeCount = 0, updatedAt = ''2024-05-01T10:00:00Z''\<rparr>"

definition page1 :: response where
  "page1 = \<lparr>items = [sample_item ''c1'' ''Great video'', sample_item ''c2'' ''what a stupid take''],
            nextPageToken = Some ''p2''\<rparr>"

definition page2 :: response where
  "page2 = \<lparr>items = [sample_item ''c3'' ''bonjour'', sample_item ''c4'' ''meh''],
            nextPageToken = Some ''p3''\<rparr>"

definition page3 :: response where
  "page3 = \<lparr>items = [sample_item ''c5'' ''!!!''], nextPageToken = None\<rparr>"

definition api_three_pages :: api where
  "api_three_pages i q =
     (if i = 0 then ApiReturns page1
      else if i = 1 then ApiReturns page2
      else if i = 2 then ApiReturns page3
      else ApiRaises ''no such page'')"

definition api_quota :: api where
  "api_quota i q = (if i = 0 then ApiReturns page1 else ApiRaises ''quotaExceeded'')"

definition sample_url :: string where
  "sample_url = ''https://www.youtube.com/watch?v=dQw4w9WgXcQ''"

subsection \<open>What the pipeline makes of a comment\<close>

text \<open>
  \<open>pc\<close> is the enrichment of the raw comment \<open>c\<close>: it has the fields of \<open>c\<close>, the language
  detected in the text of \<open>c\<close>, the translation of that text when the language is not
  \<^verbatim>\<open>en\<close> (else the text), and the sentiment, the polarity and the toxicity flag of the
  translated text.
\<close>

definition enriched_from ::
  "unicode \<Rightarrow> (ustring \<Rightarrow> detector_outcome) \<Rightarrow> (ustring \<Rightarrow> translator_outcome)
   \<Rightarrow> (ustring \<Rightarrow> scorer_outcome) \<Rightarrow> raw_comment \<Rightarrow> processed_comment \<Rightarrow> bool" where
  "enriched_from u detect translate scorer c pc =
     (raw_comment.truncate pc = c
      \<and> snd (detect_language u detect (text c)) = Inr (original_language pc)
      \<and> snd (if original_language pc \<noteq> ustr ''en''
              then translate_to_english u detect translate (text c) None
              else ret (text c)) = Inr (translated_text pc)
      \<and> snd (analyze_sentiment scorer (translated_text pc))
           = Inr \<lparr>sentiment_result.sentiment = sentiment pc, sentiment_result.polarity = polarity pc\<rparr>
      \<and> is_toxic pc = detect_toxicity u (translated_text pc))"

subsection \<open>Sample batches of processed comments\<close>

definition sample_processed :: "string \<Rightarrow> string \<Rightarrow> real \<Rightarrow> processed_comment" where
  "sample_processed t s p =
     \<lparr>comment_id = ''c'', author = ''viewer'', text = ustr t,
      published_at = ''2024-05-01T10:00:00Z'', like_count = 0,
      updated_at = ''2024-05-01T10:00:00Z'',
      original_language = ustr ''en'', translated_text = ustr t, sentiment = s, polarity = p,
      is_toxic = False\<rparr>"

text \<open>A comment text of 150 characters.\<close>

definition long_text :: ustring where
  "long_text = ustr (replicate 150 CHR ''a'')"

definition long_comment :: processed_comment where
  "long_comment = sample_processed (replicate 150 CHR ''a'') ''Positive'' 0.9"

definition sample_batch :: "processed_comment list" where
  "sample_batch =
     [sample_processed ''nice'' ''Positive'' 0.5,
      sample_processed ''fine'' ''Neutral'' 0,
      sample_processed ''superb'' ''Positive'' 0.8,
      sample_processed ''lovely'' ''Positive'' 0.5]"

section \<open>Properties\<close>

subsection \<open>Computations\<close>

lemma bind_io_ret [simp]: "bind_io (ret x) f = f x"
  by (simp add: bind_io_def ret_def split: prod.splits)

lemma bind_io_raise [simp]: "bind_io (raise e) f = raise e"
  by (simp add: bind_io_def raise_def)

lemma bind_io_value: "bind_io (tr, Inr x) f = (tr @ fst (f x), snd (f x))"
  by (simp add: bind_io_def split: prod.splits)

lemma bind_io_exn: "bind_io (tr, Inl e) f = (tr, Inl e)"
  by (simp add: bind_io_def)

lemma try_except_ret [simp]: "try_except (ret x) h = ret x"
  by (simp add: try_except_def ret_def)

lemma try_except_raise [simp]: "try_except (raise e) h = h e"
  by (simp add: try_except_def raise_def split: prod.splits)

lemma try_except_value: "try_except (tr, Inr x) h = (tr, Inr x)"
  by (simp add: try_except_def)

lemma try_except_exn: "try_except (tr, Inl e) h = (tr @ fst (h e), snd (h e))"
  by (simp add: try_except_def split: prod.splits)

subsection \<open>Sentiment scoring\<close>

lemma analyze_sentiment_cases:
  "analyze_sentiment scorer txt =
     ret (case scorer txt of
            Polarity p \<Rightarrow> \<lparr>sentiment_result.sentiment =
                              (if p > 0.1 then ''Positive'' else if p < - 0.1 then ''Negative'' else ''Neutral''),
                            sentiment_result.polarity = p\<rparr>
          | _ \<Rightarrow> \<lparr>sentiment_result.sentiment = ''Neutral'', sentiment_result.polarity = 0\<rparr>)"
  by (cases "scorer txt") (simp_all add: analyze_sentiment_def analyze_sentiment_try_def)

text \<open>
  C2. \<^verbatim>\<open>analyze_sentiment\<close> always returns a result and never raises. Its label is
  \<^verbatim>\<open>Positive\<close> exactly when the polarity it returns is above \<open>0.1\<close>, \<^verbatim>\<open>Negative\<close> exactly when
  it is below \<open>-0.1\<close>, and \<^verbatim>\<open>Neutral\<close> exactly otherwise, so that \<open>0.1\<close> and \<open>-0.1\<close> themselves
  are \<^verbatim>\<open>Neutral\<close>. The polarity is the scorer's when the scorer gives one; when the scorer
  raises, the result is \<^verbatim>\<open>Neutral\<close> with polarity \<open>0\<close>.
\<close>

theorem analyze_sentiment_thresholds:
  "\<exists>r. analyze_sentiment scorer txt = ([], Inr r)
     \<and> (sentiment_result.sentiment r = ''Positive'' \<longleftrightarrow> sentiment_result.polarity r > 0.1)
     \<and> (sentiment_result.sentiment r = ''Negative'' \<longleftrightarrow> sentiment_result.polarity r < - 0.1)
     \<and> (sentiment_result.sentiment r = ''Neutral''
          \<longleftrightarrow> \<not> sentiment_result.polarity r > 0.1 \<and> \<not> sentiment_result.polarity r < - 0.1)
     \<and> (\<forall>p. scorer txt = Polarity p \<longrightarrow> sentiment_result.polarity r = p)
     \<and> (\<forall>msg. scorer txt = ScorerRaises msg \<longrightarrow>
            r = \<lparr>sentiment_result.sentiment = ''Neutral'', sentiment_result.polarity = 0\<rparr>)"
  by (cases "scorer txt") (simp_all add: analyze_sentiment_cases ret_def)

theorem analyze_sentiment_thresholds_witness:
  "scorer_boundary ''fine'' = Polarity 0.1
   \<and> (\<exists>r. analyze_sentiment scorer_boundary ''fine'' = ([], Inr r)
          \<and> sentiment_result.sentiment r = ''Neutral'' \<and> sentiment_result.polarity r = 0.1)
   \<and> scorer_boundary [] = ScorerRaises ''no text''
   \<and> analyze_sentiment scorer_boundary []
       = ([], Inr \<lparr>sentiment_result.sentiment = ''Neutral'', sentiment_result.polarity = 0\<rparr>)"
proof -
  have fine: "scorer_boundary ''fine'' = Polarity 0.1"
    and none: "scorer_boundary [] = ScorerRaises ''no text''"
    by (simp_all add: scorer_boundary_def)
  obtain r where r: "analyze_sentiment scorer_boundary ''fine'' = ([], Inr r)"
      "sentiment_result.sentiment r = ''Neutral''
         \<longleftrightarrow> \<not> sentiment_result.polarity r > 0.1 \<and> \<not> sentiment_result.polarity r < - 0.1"
      "\<forall>p. scorer_boundary ''fine'' = Polarity p \<longrightarrow> sentiment_result.polarity r = p"
    using analyze_sentiment_thresholds [of scorer_boundary "''fine''"] by blast
  from r(3) fine have p: "sentiment_result.polarity r = 0.1" by blast
  with r(2) have "sentiment_result.sentiment r = ''Neutral''" by simp
  moreover obtain r' where r': "analyze_sentiment scorer_boundary [] = ([], Inr r')"
      "\<forall>msg. scorer_boundary [] = ScorerRaises msg \<longrightarrow>
         r' = \<lparr>sentiment_result.sentiment = ''Neutral'', sentiment_result.polarity = 0\<rparr>"
    using analyze_sentiment_thresholds [of scorer_boundary "[]"] by blast
  ultimately show ?thesis using fine none r(1) p by auto
qed

subsection \<open>Language detection\<close>

lemma dropWhile_all_iff: "(\<forall>x\<in>set (dropWhile P xs). P x) \<longleftrightarrow> (\<forall>x\<in>set xs. P x)"
proof
  assume a: "\<forall>x\<in>set (dropWhile P xs). P x"
  have "dropWhile P xs = []"
  proof (rule ccontr)
    assume ne: "dropWhile P xs \<noteq> []"
    then have "\<not> P (hd (dropWhile P xs))" by (rule hd_dropWhile)
    moreover from ne have "hd (dropWhile P xs) \<in> set (dropWhile P xs)" by simp
    ultimately show False using a by blast
  qed
  then show "\<forall>x\<in>set xs. P x" by simp
next
  assume "\<forall>x\<in>set xs. P x"
  then show "\<forall>x\<in>set (dropWhile P xs). P x" by (meson set_dropWhileD)
qed

lemma strip_Nil_iff: "strip u s = [] \<longleftrightarrow> (\<forall>c\<in>set s. isspace u c)"
  by (simp add: strip_def dropWhile_all_iff)

lemma detect_language_cases:
  "detect_language u detect txt =
     (if txt = [] \<or> (\<forall>c\<in>set txt. isspace u c) \<or> (\<forall>c\<in>set txt. \<not> isalnum u c) then ([], Inr (ustr ''unknown''))
      else ([DetectCall txt],
            Inr (case detect txt of DetectRaises msg \<Rightarrow> (ustr ''unknown'') | Detected code \<Rightarrow> code)))"
  by (cases "detect txt")
    (auto simp: detect_language_def detect_language_try_def strip_Nil_iff list_all_iff
      call_detect_def try_except_exn try_except_value ret_def)

text \<open>
  C4. For a text that is empty, consists of whitespace only, or has no alphanumeric
  character, \<^verbatim>\<open>detect_language\<close> returns \<^verbatim>\<open>unknown\<close> and the log of external calls is empty:
  the detector is not invoked, whatever it would have done. When the detector raises, the
  result is \<^verbatim>\<open>unknown\<close>. For every text and every detector the function returns a value,
  never an exception.
\<close>

theorem detect_language_unknown:
  "(txt = [] \<or> (\<forall>c\<in>set txt. isspace u c) \<or> (\<forall>c\<in>set txt. \<not> isalnum u c)
      \<longrightarrow> detect_language u detect txt = ([], Inr (ustr ''unknown'')))
   \<and> (\<forall>msg. detect txt = DetectRaises msg \<longrightarrow> snd (detect_language u detect txt) = Inr (ustr ''unknown''))
   \<and> (\<exists>tr code. detect_language u detect txt = (tr, Inr code))"
  by (auto simp: detect_language_cases)

theorem detect_language_unknown_witness:
  "detect_language ascii_tables detect_fr (ustr ''?! ...'') = ([], Inr (ustr ''unknown''))
   \<and> detect_language ascii_tables detect_fr [128512, 128077] = ([], Inr (ustr ''unknown''))
   \<and> detect_fails (ustr ''abc'') = DetectRaises ''No features in text.''
   \<and> snd (detect_language ascii_tables detect_fails (ustr ''abc'')) = Inr (ustr ''unknown'')"
proof -
  have h: "\<forall>c\<in>set (ustr ''?! ...''). \<not> isalnum ascii_tables c"
    by (simp add: ustr_def ascii_tables_def ascii_isalnum_def)
  have e: "\<forall>c\<in>set [128512, 128077]. \<not> isalnum ascii_tables c"
    by (simp add: ascii_tables_def ascii_isalnum_def)
  have f: "detect_fails (ustr ''abc'') = DetectRaises ''No features in text.''"
    by (simp add: detect_fails_def)
  from h e f show ?thesis
    using detect_language_unknown [of "ustr ''?! ...''" ascii_tables detect_fr]
      detect_language_unknown [of "[128512, 128077]" ascii_tables detect_fr]
      detect_language_unknown [of "ustr ''abc''" ascii_tables detect_fails]
    by blast
qed

subsection \<open>Translation\<close>

lemma translate_to_english_cases:
  "translate_to_english u detect translate txt src_lang =
     (if txt = [] \<or> (\<forall>c\<in>set txt. isspace u c) then ([], Inr txt)
      else case (case src_lang of None \<Rightarrow> detect_language u detect txt | Some l \<Rightarrow> ([], Inr l)) of
        (tr, Inl e) \<Rightarrow> (tr, Inr txt)
      | (tr, Inr l) \<Rightarrow>
          if l = (ustr ''en'') \<or> l = (ustr ''unknown'') then (tr, Inr txt)
          else (tr @ [TranslateCall txt],
                Inr (case translate txt of Translated t \<Rightarrow> t | _ \<Rightarrow> txt)))"
proof (cases "txt = [] \<or> (\<forall>c\<in>set txt. isspace u c)")
  case True
  then show ?thesis
    by (auto simp: translate_to_english_def translate_to_english_try_def strip_Nil_iff ret_def try_except_value)
next
  case False
  then have nb: "\<not> (txt = [] \<or> strip u txt = [])" by (simp add: strip_Nil_iff)
  obtain tr r where m: "(case src_lang of None \<Rightarrow> detect_language u detect txt | Some l \<Rightarrow> ret l) = (tr, r)"
    by (cases "case src_lang of None \<Rightarrow> detect_language u detect txt | Some l \<Rightarrow> ret l") blast
  then have m': "(case src_lang of None \<Rightarrow> detect_language u detect txt | Some l \<Rightarrow> ([], Inr l)) = (tr, r)"
    by (cases src_lang) (simp_all add: ret_def)
  have body: "translate_to_english_try u detect translate txt src_lang =
        bind_io (tr, r) (\<lambda>src_lang.
           if src_lang \<in> set [(ustr ''en''), (ustr ''unknown'')] then ret txt
           else bind_io (call_translate translate txt)
             (\<lambda>translated. case translated of None \<Rightarrow> ret txt | Some t \<Rightarrow> ret t))"
    unfolding translate_to_english_try_def m using nb by simp
  have "translate_to_english u detect translate txt src_lang =
      (case (tr, r) of
        (tr, Inl e) \<Rightarrow> (tr, Inr txt)
      | (tr, Inr l) \<Rightarrow>
          if l = (ustr ''en'') \<or> l = (ustr ''unknown'') then (tr, Inr txt)
          else (tr @ [TranslateCall txt],
                Inr (case translate txt of Translated t \<Rightarrow> t | _ \<Rightarrow> txt)))"
  proof (cases r)
    case (Inl e)
    then show ?thesis
      by (simp add: translate_to_english_def body bind_io_exn try_except_exn ret_def)
  next
    case (Inr l)
    then show ?thesis
      by (cases "translate txt")
        (simp_all add: translate_to_english_def body bind_io_value bind_io_exn
          try_except_exn try_except_value ret_def call_translate_def)
  qed
  with False show ?thesis unfolding m' by auto
qed

text \<open>
  C3, as the code has it. \<^verbatim>\<open>translate_to_english\<close> returns the text unchanged, without a
  call of the translation backend, when the supplied or the detected language is \<^verbatim>\<open>en\<close> or
  \<^verbatim>\<open>unknown\<close>. When the backend raises or returns \<^verbatim>\<open>None\<close>, the result is the original text.
  When the backend is invoked and returns a string, that string is the result, also when it
  is empty. For every text no exception leaves the function.
\<close>

theorem translate_to_english_fallback:
  "(\<forall>l. l = (ustr ''en'') \<or> l = (ustr ''unknown'') \<longrightarrow>
        translate_to_english u detect translate txt (Some l) = ([], Inr txt))
   \<and> (\<forall>tr l. detect_language u detect txt = (tr, Inr l) \<and> (l = (ustr ''en'') \<or> l = (ustr ''unknown'')) \<longrightarrow>
        translate_to_english u detect translate txt None = (if txt = [] \<or> (\<forall>c\<in>set txt. isspace u c) then [] else tr, Inr txt)
        \<and> TranslateCall txt \<notin> set tr)
   \<and> ((\<exists>msg. translate txt = TranslateRaises msg) \<or> translate txt = TranslatedNone \<longrightarrow>
        snd (translate_to_english u detect translate txt src_lang) = Inr txt)
   \<and> (\<forall>t. translate txt = Translated t
            \<and> TranslateCall txt \<in> set (fst (translate_to_english u detect translate txt src_lang)) \<longrightarrow>
        snd (translate_to_english u detect translate txt src_lang) = Inr t)
   \<and> (\<exists>tr s. translate_to_english u detect translate txt src_lang = (tr, Inr s))"
proof -
  let ?res = "translate_to_english u detect translate txt src_lang"
  have a: "\<forall>l. l = (ustr ''en'') \<or> l = (ustr ''unknown'') \<longrightarrow>
        translate_to_english u detect translate txt (Some l) = ([], Inr txt)"
    by (simp add: translate_to_english_cases)
  have b: "\<forall>tr l. detect_language u detect txt = (tr, Inr l) \<and> (l = (ustr ''en'') \<or> l = (ustr ''unknown'')) \<longrightarrow>
        translate_to_english u detect translate txt None
          = (if txt = [] \<or> (\<forall>c\<in>set txt. isspace u c) then [] else tr, Inr txt)
        \<and> TranslateCall txt \<notin> set tr"
    by (auto simp: translate_to_english_cases detect_language_cases split: if_splits)
  have c: "(\<exists>msg. translate txt = TranslateRaises msg) \<or> translate txt = TranslatedNone \<longrightarrow>
        snd ?res = Inr txt"
    by (cases src_lang) (auto simp: translate_to_english_cases detect_language_cases split: if_splits)
  have d: "\<forall>t. translate txt = Translated t \<and> TranslateCall txt \<in> set (fst ?res) \<longrightarrow>
        snd ?res = Inr t"
    by (cases src_lang) (auto simp: translate_to_english_cases detect_language_cases split: if_splits)
  have e: "\<exists>tr s. ?res = (tr, Inr s)"
    by (cases src_lang) (auto simp: translate_to_english_cases detect_language_cases split: if_splits)
  from a b c d e show ?thesis by blast
qed

theorem translate_to_english_fallback_witness:
  "translate_to_english ascii_tables detect_fr translate_none (ustr ''bonjour'') (Some (ustr ''en''))
     = ([], Inr (ustr ''bonjour''))
   \<and> detect_language ascii_tables detect_en (ustr ''hello'')
     = ([DetectCall (ustr ''hello'')], Inr (ustr ''en''))
   \<and> translate_to_english ascii_tables detect_en translate_none (ustr ''hello'') None
     = ([DetectCall (ustr ''hello'')], Inr (ustr ''hello''))
   \<and> translate_none (ustr ''bonjour'') = TranslatedNone
   \<and> snd (translate_to_english ascii_tables detect_fr translate_none (ustr ''bonjour'') None)
     = Inr (ustr ''bonjour'')
   \<and> translate_empty (ustr ''bonjour'') = Translated []
   \<and> TranslateCall (ustr ''bonjour'')
       \<in> set (fst (translate_to_english ascii_tables detect_fr translate_empty (ustr ''bonjour'') None))
   \<and> snd (translate_to_english ascii_tables detect_fr translate_empty (ustr ''bonjour'') None) = Inr []"
proof -
  have d: "detect_language ascii_tables detect_en (ustr ''hello'')
      = ([DetectCall (ustr ''hello'')], Inr (ustr ''en''))"
    by code_simp
  have n: "translate_none (ustr ''bonjour'') = TranslatedNone"
    by (simp add: translate_none_def)
  have e: "translate_empty (ustr ''bonjour'') = Translated []"
    by (simp add: translate_empty_def)
  have c: "TranslateCall (ustr ''bonjour'')
      \<in> set (fst (translate_to_english ascii_tables detect_fr translate_empty (ustr ''bonjour'') None))"
    by code_simp
  have s: "\<not> (ustr ''hello'' = [] \<or> (\<forall>c\<in>set (ustr ''hello''). isspace ascii_tables c))"
    by (simp add: ustr_def ascii_tables_def ascii_isspace_def)
  show ?thesis
    using d n e c s
      translate_to_english_fallback [of ascii_tables detect_fr translate_none "ustr ''bonjour''"
        "Some (ustr ''en'')"]
      translate_to_english_fallback [of ascii_tables detect_en translate_none "ustr ''hello''" None]
      translate_to_english_fallback [of ascii_tables detect_fr translate_none "ustr ''bonjour''" None]
      translate_to_english_fallback [of ascii_tables detect_fr translate_empty "ustr ''bonjour''" None]
    by simp
qed

text \<open>
  The claim as stated fails where the backend answers the empty string: the guard of the
  code is \<^verbatim>\<open>translated is None\<close>, so the empty string is returned for the text
  \<^verbatim>\<open>bonjour\<close>.
\<close>

theorem translate_to_english_empty_counterexample:
  "translate_to_english ascii_tables detect_fr translate_empty (ustr ''bonjour'') None
     = ([DetectCall (ustr ''bonjour''), TranslateCall (ustr ''bonjour'')], Inr [])"
  by code_simp

subsection \<open>Toxicity detection\<close>

lemma take_length_eq_prefix: "take (length sub) s = sub \<longleftrightarrow> prefix sub s"
  by (metis append_eq_conv_conj prefix_def take_is_prefix)

lemma contains_sublist: "contains sub s \<longleftrightarrow> sublist sub s"
  by (induction s) (simp_all add: take_length_eq_prefix sublist_Cons_right)

lemma contains_iff: "contains sub s \<longleftrightarrow> (\<exists>a b. s = a @ sub @ b)"
  by (simp add: contains_sublist sublist_def)

lemma keyword_loop_iff: "keyword_loop ks t \<longleftrightarrow> (\<exists>k\<in>set ks. contains k t)"
  by (induction ks) simp_all

lemma pattern_loop_iff: "pattern_loop ps t \<longleftrightarrow> (\<exists>p\<in>set ps. re_search p t \<noteq> None)"
  by (induction ps) simp_all

lemma detect_toxicity_iff:
  "detect_toxicity u txt \<longleftrightarrow>
     (\<exists>k\<in>set toxicity_keywords. \<exists>a b. lower u txt = a @ k @ b)
     \<or> (\<exists>p\<in>set (toxic_patterns u). re_search p (lower u txt) \<noteq> None)"
  by (simp add: detect_toxicity_def Let_def keyword_loop_iff pattern_loop_iff contains_iff)

text \<open>The keywords are ASCII, and so is every spelling of a keyword.\<close>

lemma ustr_ascii: "list_all (\<lambda>c. of_char c < (128::nat)) s \<Longrightarrow> c \<in> set (ustr s) \<Longrightarrow> c < 128"
  by (auto simp: ustr_def list_all_iff)

lemma keywords_ascii:
  assumes "k \<in> set toxicity_keywords" "c \<in> set k"
  shows "c < 128"
proof -
  have "list_all (\<lambda>k. list_all (\<lambda>c. c < 128) k) toxicity_keywords"
    by code_simp
  with assms show ?thesis by (auto simp: list_all_iff)
qed

lemma spelling_ascii:
  assumes "k \<in> set toxicity_keywords" "map ascii_lower k' = k" "c \<in> set k'"
  shows "c < 128"
proof -
  from assms(2,3) have "ascii_lower c \<in> set k" by auto
  with assms(1) have "ascii_lower c < 128" by (rule keywords_ascii)
  then show ?thesis by (simp add: ascii_lower_def split: if_splits)
qed

lemma ascii_lowering_ascii_tables: "ascii_lowering ascii_tables"
  unfolding ascii_lowering_def
proof (intro allI impI)
  fix a s b :: ustring
  have "lower ascii_tables (a @ s @ b) = map ascii_lower a @ map ascii_lower s @ map ascii_lower b"
    by (simp add: ascii_tables_def)
  then show "\<exists>x y. lower ascii_tables (a @ s @ b) = x @ map ascii_lower s @ y" by blast
qed

text \<open>
  C5. \<^verbatim>\<open>detect_toxicity\<close> is true exactly when the lowercased text has a keyword of the
  blocklist as a substring or one of the patterns is found in it, whatever the tables of
  Python are. With \<^verbatim>\<open>str.lower\<close> turning each ASCII character into its lower-case character,
  every spelling of a keyword in upper and lower case, between any two texts, makes the
  result true; and a text without keyword and pattern makes it false. The function is
  total: it has a value for every text.
\<close>

theorem detect_toxicity_keyword_or_pattern:
  "(detect_toxicity u txt \<longleftrightarrow>
      (\<exists>k\<in>set toxicity_keywords. \<exists>a b. lower u txt = a @ k @ b)
      \<or> (\<exists>p\<in>set (toxic_patterns u). re_search p (lower u txt) \<noteq> None))
   \<and> (ascii_lowering u \<longrightarrow>
        (\<forall>k\<in>set toxicity_keywords. \<forall>k' before after.
           map ascii_lower k' = k \<longrightarrow> detect_toxicity u (before @ k' @ after)))"
proof -
  have "detect_toxicity u (before @ k' @ after)"
    if low: "ascii_lowering u" and k: "k \<in> set toxicity_keywords" and k': "map ascii_lower k' = k"
    for k k' before after
  proof -
    have "\<forall>c\<in>set k'. c < 128" using k k' spelling_ascii by blast
    with low obtain x y where "lower u (before @ k' @ after) = x @ map ascii_lower k' @ y"
      unfolding ascii_lowering_def by blast
    with k k' show ?thesis unfolding detect_toxicity_iff by blast
  qed
  then show ?thesis using detect_toxicity_iff by blast
qed

theorem detect_toxicity_keyword_or_pattern_witness:
  "ustr ''stupid'' \<in> set toxicity_keywords
   \<and> map ascii_lower (ustr ''StUpId'') = ustr ''stupid''
   \<and> detect_toxicity ascii_tables (ustr ''That was a '' @ ustr ''StUpId'' @ ustr ''-looking edit'')
   \<and> \<not> detect_toxicity ascii_tables (ustr ''This video is great'')
   \<and> detect_toxicity ascii_tables (ustr ''just die already'')
   \<and> \<not> detect_toxicity ascii_tables (ustr ''my diet plan'')"
proof -
  have k: "ustr ''stupid'' \<in> set toxicity_keywords" by (simp add: toxicity_keywords_def)
  have l: "map ascii_lower (ustr ''StUpId'') = ustr ''stupid''" by code_simp
  have c: "\<not> detect_toxicity ascii_tables (ustr ''This video is great'')" by code_simp
  have p: "detect_toxicity ascii_tables (ustr ''just die already'')"
    "\<not> detect_toxicity ascii_tables (ustr ''my diet plan'')" by code_simp+
  from k l c p ascii_lowering_ascii_tables show ?thesis
    using detect_toxicity_keyword_or_pattern [of ascii_tables "[]"] by blast
qed

subsection \<open>The fetch loops\<close>

lemma fetch_all_loop_error:
  "execute (length tr) \<lparr>videoId = vid, maxResults = 100, pageToken = tok\<rparr> = ApiRaises e
   \<Longrightarrow> fetch_all_loop execute vid tr comments tok
       = Some (tr @ [ApiCall \<lparr>videoId = vid, maxResults = 100, pageToken = tok\<rparr>],
               Inl (Exception (''Error fetching comments: '' @ e)))"
  by (subst fetch_all_loop.simps) simp

lemma fetch_all_loop_last:
  "execute (length tr) \<lparr>videoId = vid, maxResults = 100, pageToken = tok\<rparr> = ApiReturns r
   \<Longrightarrow> falsy (nextPageToken r)
   \<Longrightarrow> fetch_all_loop execute vid tr comments tok
       = Some (tr @ [ApiCall \<lparr>videoId = vid, maxResults = 100, pageToken = tok\<rparr>],
               Inr (comments @ map comment_of_item (items r)))"
  by (subst fetch_all_loop.simps) simp

lemma fetch_all_loop_next:
  "execute (length tr) \<lparr>videoId = vid, maxResults = 100, pageToken = tok\<rparr> = ApiReturns r
   \<Longrightarrow> \<not> falsy (nextPageToken r)
   \<Longrightarrow> fetch_all_loop execute vid tr comments tok
       = fetch_all_loop execute vid (tr @ [ApiCall \<lparr>videoId = vid, maxResults = 100, pageToken = tok\<rparr>])
           (comments @ map comment_of_item (items r)) (nextPageToken r)"
  by (subst fetch_all_loop.simps) simp

lemma token_after_Cons: "token_after tok (r # rs) = token_after (nextPageToken r) rs"
  by (simp add: token_after_def)

lemma comments_of_Cons: "comments_of (r # rs) = map comment_of_item (items r) @ comments_of rs"
  by (simp add: comments_of_def)

lemma count_items_Cons: "count_items (r # rs) = length (items r) + count_items rs"
  by (simp add: count_items_def)

lemma fetch_all_loop_pages:
  "answers execute (length tr) (requests_all vid tok rs) rs
   \<Longrightarrow> \<forall>r\<in>set rs. \<not> falsy (nextPageToken r)
   \<Longrightarrow> fetch_all_loop execute vid tr comments tok
       = fetch_all_loop execute vid (tr @ map ApiCall (requests_all vid tok rs))
           (comments @ comments_of rs) (token_after tok rs)"
proof (induction rs arbitrary: tr comments tok)
  case Nil
  then show ?case by (simp add: token_after_def comments_of_def)
next
  case (Cons r rs)
  let ?q = "\<lparr>videoId = vid, maxResults = 100, pageToken = tok\<rparr>"
  from Cons.prems have q: "execute (length tr) ?q = ApiReturns r"
    and rest: "answers execute (length (tr @ [ApiCall ?q])) (requests_all vid (nextPageToken r) rs) rs"
    and tok: "\<not> falsy (nextPageToken r)" and toks: "\<forall>r\<in>set rs. \<not> falsy (nextPageToken r)"
    by simp_all
  have "fetch_all_loop execute vid tr comments tok
      = fetch_all_loop execute vid (tr @ [ApiCall ?q]) (comments @ map comment_of_item (items r))
          (nextPageToken r)"
    using q tok by (rule fetch_all_loop_next)
  also have "\<dots> = fetch_all_loop execute vid
        ((tr @ [ApiCall ?q]) @ map ApiCall (requests_all vid (nextPageToken r) rs))
        ((comments @ map comment_of_item (items r)) @ comments_of rs)
        (token_after (nextPageToken r) rs)"
    using rest toks by (rule Cons.IH)
  finally show ?case
    by (simp add: token_after_Cons comments_of_Cons)
qed

lemma fetch_all_loop_complete:
  assumes "run_all execute vid tr comments tok y"
  shows "fetch_all_loop execute vid tr comments tok = Some y"
proof -
  from assms obtain rs where rs: "answers execute (length tr) (requests_all vid tok rs) rs"
      "\<forall>r\<in>set rs. \<not> falsy (nextPageToken r)"
    and y: "fst y = tr @ map ApiCall (requests_all vid tok rs)
                @ [ApiCall \<lparr>videoId = vid, maxResults = 100, pageToken = token_after tok rs\<rparr>]"
      "case execute (length tr + length rs)
              \<lparr>videoId = vid, maxResults = 100, pageToken = token_after tok rs\<rparr> of
         ApiRaises e \<Rightarrow> snd y = Inl (Exception (''Error fetching comments: '' @ e))
       | ApiReturns r \<Rightarrow> falsy (nextPageToken r)
            \<and> snd y = Inr (comments @ comments_of rs @ map comment_of_item (items r))"
    unfolding run_all_def Let_def by blast
  let ?tr = "tr @ map ApiCall (requests_all vid tok rs)"
  let ?q = "\<lparr>videoId = vid, maxResults = 100, pageToken = token_after tok rs\<rparr>"
  have len: "length (requests_all vid t rs) = length rs" for t
    by (induction rs arbitrary: t) simp_all
  have step: "fetch_all_loop execute vid tr comments tok
      = fetch_all_loop execute vid ?tr (comments @ comments_of rs) (token_after tok rs)"
    using rs by (rule fetch_all_loop_pages)
  show ?thesis
  proof (cases "execute (length tr + length rs) ?q")
    case (ApiRaises e)
    then have "execute (length ?tr) ?q = ApiRaises e" by (simp add: len)
    then have "fetch_all_loop execute vid ?tr (comments @ comments_of rs) (token_after tok rs)
        = Some (?tr @ [ApiCall ?q], Inl (Exception (''Error fetching comments: '' @ e)))"
      by (rule fetch_all_loop_error)
    with step y ApiRaises show ?thesis by (cases y) simp
  next
    case (ApiReturns r)
    then have q: "execute (length ?tr) ?q = ApiReturns r" by (simp add: len)
    from y(2) ApiReturns have f: "falsy (nextPageToken r)" by simp
    have "fetch_all_loop execute vid ?tr (comments @ comments_of rs) (token_after tok rs)
        = Some (?tr @ [ApiCall ?q], Inr ((comments @ comments_of rs) @ map comment_of_item (items r)))"
      using q f by (rule fetch_all_loop_last)
    with step y ApiReturns show ?thesis by (cases y) simp
  qed
qed

lemma fetch_all_loop_sound:
  assumes "fetch_all_loop execute vid tr comments tok = Some y"
  shows "run_all execute vid tr comments tok y"
proof (rule fetch_all_loop.raw_induct [where P = run_all, OF _ assms])
  fix f :: "api \<Rightarrow> string \<Rightarrow> call list \<Rightarrow> raw_comment list \<Rightarrow> string option \<Rightarrow> raw_comment list io option"
    and execute vid tr comments tok y
  assume IH: "\<And>execute vid tr comments tok y.
      f execute vid tr comments tok = Some y \<Longrightarrow> run_all execute vid tr comments tok y"
  let ?q = "\<lparr>videoId = vid, maxResults = 100, pageToken = tok\<rparr>"
  assume body: "(let request = \<lparr>videoId = vid, maxResults = 100, pageToken = tok\<rparr> in
      case execute (length tr) request of
        ApiRaises e \<Rightarrow>
          Some (tr @ [ApiCall request], Inl (Exception (''Error fetching comments: '' @ e)))
      | ApiReturns response \<Rightarrow>
          (let comments' = comments @ map comment_of_item (items response);
               next_page_token' = nextPageToken response
           in if falsy next_page_token' then Some (tr @ [ApiCall request], Inr comments')
              else f execute vid (tr @ [ApiCall request]) comments' next_page_token')) = Some y"
  show "run_all execute vid tr comments tok y"
  proof (cases "execute (length tr) ?q")
    case (ApiRaises e)
    with body have "y = (tr @ [ApiCall ?q], Inl (Exception (''Error fetching comments: '' @ e)))"
      by simp
    with ApiRaises show ?thesis
      unfolding run_all_def by (intro exI [of _ "[]"]) (simp add: token_after_def)
  next
    case (ApiReturns r)
    show ?thesis
    proof (cases "falsy (nextPageToken r)")
      case True
      with body ApiReturns have "y = (tr @ [ApiCall ?q], Inr (comments @ map comment_of_item (items r)))"
        by simp
      with ApiReturns True show ?thesis
        unfolding run_all_def by (intro exI [of _ "[]"]) (simp add: token_after_def comments_of_def)
    next
      case False
      with body ApiReturns have "f execute vid (tr @ [ApiCall ?q])
          (comments @ map comment_of_item (items r)) (nextPageToken r) = Some y"
        by simp
      then have "run_all execute vid (tr @ [ApiCall ?q])
          (comments @ map comment_of_item (items r)) (nextPageToken r) y"
        by (rule IH)
      then obtain rs where rs: "answers execute (Suc (length tr)) (requests_all vid (nextPageToken r) rs) rs"
          "\<forall>r\<in>set rs. \<not> falsy (nextPageToken r)"
          "fst y = (tr @ [ApiCall ?q]) @ map ApiCall (requests_all vid (nextPageToken r) rs)
                @ [ApiCall \<lparr>videoId = vid, maxResults = 100, pageToken = token_after (nextPageToken r) rs\<rparr>]"
          "case execute (Suc (length tr) + length rs)
                  \<lparr>videoId = vid, maxResults = 100, pageToken = token_after (nextPageToken r) rs\<rparr> of
             ApiRaises e \<Rightarrow> snd y = Inl (Exception (''Error fetching comments: '' @ e))
           | ApiReturns r' \<Rightarrow> falsy (nextPageToken r')
                \<and> snd y = Inr ((comments @ map comment_of_item (items r)) @ comments_of rs
                               @ map comment_of_item (items r'))"
        unfolding run_all_def Let_def by auto
      show ?thesis
        unfolding run_all_def Let_def
        using ApiReturns False rs
        by (intro exI [of _ "r # rs"])
          (auto simp: token_after_Cons comments_of_Cons split: api_outcome.splits)
    qed
  qed
qed

text \<open>
  So the loops end exactly in the runs described, with the trace and the result of the run.
  In every other case (pages with tokens without end) they run forever.
\<close>

lemma fetch_all_loop_iff:
  "fetch_all_loop execute vid tr comments tok = Some y \<longleftrightarrow> run_all execute vid tr comments tok y"
  using fetch_all_loop_sound fetch_all_loop_complete by blast
lemma fetch_comments_loop_done:
  "\<not> int (length comments) < N
   \<Longrightarrow> fetch_comments_loop execute vid N tr comments tok = Some (tr, Inr comments)"
  by (subst fetch_comments_loop.simps) simp

lemma fetch_comments_loop_error:
  "int (length comments) < N
   \<Longrightarrow> execute (length tr) \<lparr>videoId = vid, maxResults = min 100 (N - int (length comments)), pageToken = tok\<rparr>
       = ApiRaises e
   \<Longrightarrow> fetch_comments_loop execute vid N tr comments tok
       = Some (tr @ [ApiCall \<lparr>videoId = vid, maxResults = min 100 (N - int (length comments)), pageToken = tok\<rparr>],
               Inl (Exception (''Error fetching comments: '' @ e)))"
  by (subst fetch_comments_loop.simps) simp

lemma fetch_comments_loop_last:
  "int (length comments) < N
   \<Longrightarrow> execute (length tr) \<lparr>videoId = vid, maxResults = min 100 (N - int (length comments)), pageToken = tok\<rparr>
       = ApiReturns r
   \<Longrightarrow> falsy (nextPageToken r)
   \<Longrightarrow> fetch_comments_loop execute vid N tr comments tok
       = Some (tr @ [ApiCall \<lparr>videoId = vid, maxResults = min 100 (N - int (length comments)), pageToken = tok\<rparr>],
               Inr (comments @ map comment_of_item (items r)))"
  by (subst fetch_comments_loop.simps) simp

lemma fetch_comments_loop_next:
  "int (length comments) < N
   \<Longrightarrow> execute (length tr) \<lparr>videoId = vid, maxResults = min 100 (N - int (length comments)), pageToken = tok\<rparr>
       = ApiReturns r
   \<Longrightarrow> \<not> falsy (nextPageToken r)
   \<Longrightarrow> fetch_comments_loop execute vid N tr comments tok
       = fetch_comments_loop execute vid N
           (tr @ [ApiCall \<lparr>videoId = vid, maxResults = min 100 (N - int (length comments)), pageToken = tok\<rparr>])
           (comments @ map comment_of_item (items r)) (nextPageToken r)"
  by (subst fetch_comments_loop.simps) simp

lemma length_comments_of: "length (comments_of rs) = count_items rs"
  by (induction rs) (simp_all add: comments_of_def count_items_def)

lemma length_requests_all: "length (requests_all vid tok rs) = length rs"
  by (induction rs arbitrary: tok) simp_all

lemma length_requests_upto: "length (requests_upto vid N fetched tok rs) = length rs"
  by (induction rs arbitrary: fetched tok) simp_all

lemma continue_upto_count:
  "continue_upto N fetched rs \<Longrightarrow> int fetched < N \<Longrightarrow> int (fetched + count_items rs) < N"
proof (induction rs arbitrary: fetched)
  case Nil
  then show ?case by (simp add: count_items_def)
next
  case (Cons r rs)
  from Cons.prems have c: "continue_upto N (fetched + length (items r)) rs"
    and l: "int (fetched + length (items r)) < N" by simp_all
  from c l have "int (fetched + length (items r) + count_items rs) < N" by (rule Cons.IH)
  then show ?case by (simp add: count_items_Cons add.assoc)
qed

lemma fetch_comments_loop_pages:
  "int (length comments) < N
   \<Longrightarrow> answers execute (length tr) (requests_upto vid N (length comments) tok rs) rs
   \<Longrightarrow> continue_upto N (length comments) rs
   \<Longrightarrow> fetch_comments_loop execute vid N tr comments tok
       = fetch_comments_loop execute vid N (tr @ map ApiCall (requests_upto vid N (length comments) tok rs))
           (comments @ comments_of rs) (token_after tok rs)"
proof (induction rs arbitrary: tr comments tok)
  case Nil
  then show ?case by (simp add: token_after_def comments_of_def)
next
  case (Cons r rs)
  let ?q = "\<lparr>videoId = vid, maxResults = min 100 (N - int (length comments)), pageToken = tok\<rparr>"
  let ?cs = "comments @ map comment_of_item (items r)"
  from Cons.prems have lt: "int (length comments) < N"
    and q: "execute (length tr) ?q = ApiReturns r"
    and rest: "answers execute (length (tr @ [ApiCall ?q]))
                 (requests_upto vid N (length ?cs) (nextPageToken r) rs) rs"
    and tok: "\<not> falsy (nextPageToken r)"
    and lt': "int (length ?cs) < N"
    and cont: "continue_upto N (length ?cs) rs"
    by simp_all
  have "fetch_comments_loop execute vid N tr comments tok
      = fetch_comments_loop execute vid N (tr @ [ApiCall ?q]) ?cs (nextPageToken r)"
    using lt q tok by (rule fetch_comments_loop_next)
  also have "\<dots> = fetch_comments_loop execute vid N
        ((tr @ [ApiCall ?q]) @ map ApiCall (requests_upto vid N (length ?cs) (nextPageToken r) rs))
        (?cs @ comments_of rs) (token_after (nextPageToken r) rs)"
    using lt' rest cont by (rule Cons.IH)
  finally show ?case
    by (simp add: token_after_Cons comments_of_Cons)
qed

lemma fetch_comments_loop_complete:
  assumes "run_upto execute vid N tr comments tok y"
  shows "fetch_comments_loop execute vid N tr comments tok = Some y"
proof (cases "int (length comments) < N")
  case False
  with assms show ?thesis by (simp add: run_upto_def fetch_comments_loop_done)
next
  case lt: True
  let ?reqs = "\<lambda>rs. requests_upto vid N (length comments) tok rs"
  let ?q = "\<lambda>rs. \<lparr>videoId = vid, maxResults = min 100 (N - int (length comments + count_items rs)),
                    pageToken = token_after tok rs\<rparr>"
  from assms lt obtain rs where rs: "answers execute (length tr) (?reqs rs) rs"
      "continue_upto N (length comments) rs"
    and y: "fst y = tr @ map ApiCall (?reqs rs) @ [ApiCall (?q rs)]"
      "case execute (length tr + length rs) (?q rs) of
         ApiRaises e \<Rightarrow> snd y = Inl (Exception (''Error fetching comments: '' @ e))
       | ApiReturns r \<Rightarrow>
           (falsy (nextPageToken r) \<or> N \<le> int (length comments + count_items rs + length (items r)))
           \<and> snd y = Inr (comments @ comments_of rs @ map comment_of_item (items r))"
    unfolding run_upto_def Let_def by auto
  let ?tr = "tr @ map ApiCall (?reqs rs)"
  let ?cs = "comments @ comments_of rs"
  have step: "fetch_comments_loop execute vid N tr comments tok
      = fetch_comments_loop execute vid N ?tr ?cs (token_after tok rs)"
    using lt rs by (rule fetch_comments_loop_pages)
  have lt': "int (length ?cs) < N"
    using continue_upto_count [OF rs(2) lt] by (simp add: length_comments_of)
  have q_eq: "\<lparr>videoId = vid, maxResults = min 100 (N - int (length ?cs)), pageToken = token_after tok rs\<rparr>
      = ?q rs"
    by (simp add: length_comments_of)
  show ?thesis
  proof (cases "execute (length tr + length rs) (?q rs)")
    case (ApiRaises e)
    then have "execute (length ?tr)
        \<lparr>videoId = vid, maxResults = min 100 (N - int (length ?cs)), pageToken = token_after tok rs\<rparr>
        = ApiRaises e"
      by (simp add: length_requests_upto length_comments_of)
    with lt' have "fetch_comments_loop execute vid N ?tr ?cs (token_after tok rs)
        = Some (?tr @ [ApiCall \<lparr>videoId = vid, maxResults = min 100 (N - int (length ?cs)),
                                 pageToken = token_after tok rs\<rparr>],
                Inl (Exception (''Error fetching comments: '' @ e)))"
      by (rule fetch_comments_loop_error)
    with step y ApiRaises show ?thesis unfolding q_eq by (cases y) simp
  next
    case (ApiReturns r)
    then have q: "execute (length ?tr)
        \<lparr>videoId = vid, maxResults = min 100 (N - int (length ?cs)), pageToken = token_after tok rs\<rparr>
        = ApiReturns r"
      by (simp add: length_requests_upto length_comments_of)
    from y(2) ApiReturns have stop: "falsy (nextPageToken r)
        \<or> N \<le> int (length comments + count_items rs + length (items r))"
      and res: "snd y = Inr (comments @ comments_of rs @ map comment_of_item (items r))"
      by simp_all
    have "fetch_comments_loop execute vid N ?tr ?cs (token_after tok rs)
        = Some (?tr @ [ApiCall \<lparr>videoId = vid, maxResults = min 100 (N - int (length ?cs)),
                                 pageToken = token_after tok rs\<rparr>],
                Inr (?cs @ map comment_of_item (items r)))"
    proof (cases "falsy (nextPageToken r)")
      case True
      with lt' q show ?thesis by (rule fetch_comments_loop_last)
    next
      case False
      with stop have "\<not> int (length (?cs @ map comment_of_item (items r))) < N"
        by (simp add: length_comments_of)
      then have "fetch_comments_loop execute vid N
          (?tr @ [ApiCall \<lparr>videoId = vid, maxResults = min 100 (N - int (length ?cs)),
                            pageToken = token_after tok rs\<rparr>])
          (?cs @ map comment_of_item (items r)) (nextPageToken r)
        = Some (?tr @ [ApiCall \<lparr>videoId = vid, maxResults = min 100 (N - int (length ?cs)),
                                 pageToken = token_after tok rs\<rparr>],
                Inr (?cs @ map comment_of_item (items r)))"
        by (rule fetch_comments_loop_done)
      moreover have "fetch_comments_loop execute vid N ?tr ?cs (token_after tok rs)
        = fetch_comments_loop execute vid N
          (?tr @ [ApiCall \<lparr>videoId = vid, maxResults = min 100 (N - int (length ?cs)),
                            pageToken = token_after tok rs\<rparr>])
          (?cs @ map comment_of_item (items r)) (nextPageToken r)"
        using lt' q False by (rule fetch_comments_loop_next)
      ultimately show ?thesis by simp
    qed
    with step y(1) res show ?thesis unfolding q_eq by (cases y) simp
  qed
qed

lemma fetch_comments_loop_sound:
  assumes "fetch_comments_loop execute vid N tr comments tok = Some y"
  shows "run_upto execute vid N tr comments tok y"
proof (rule fetch_comments_loop.raw_induct [where P = run_upto, OF _ assms])
  fix f :: "api \<Rightarrow> string \<Rightarrow> int \<Rightarrow> call list \<Rightarrow> raw_comment list \<Rightarrow> string option
      \<Rightarrow> raw_comment list io option"
    and execute vid N tr and comments :: "raw_comment list" and tok y
  assume IH: "\<And>execute vid N tr comments tok y.
      f execute vid N tr comments tok = Some y \<Longrightarrow> run_upto execute vid N tr comments tok y"
  let ?q = "\<lparr>videoId = vid, maxResults = min 100 (N - int (length comments)), pageToken = tok\<rparr>"
  assume body: "(if int (length comments) < N then
        (let request = \<lparr>videoId = vid,
                         maxResults = min 100 (N - int (length comments)),
                         pageToken = tok\<rparr> in
         case execute (length tr) request of
           ApiRaises e \<Rightarrow>
             Some (tr @ [ApiCall request], Inl (Exception (''Error fetching comments: '' @ e)))
         | ApiReturns response \<Rightarrow>
             (let comments' = comments @ map comment_of_item (items response);
                  next_page_token' = nextPageToken response
              in if falsy next_page_token' then Some (tr @ [ApiCall request], Inr comments')
                 else f execute vid N (tr @ [ApiCall request]) comments' next_page_token'))
      else Some (tr, Inr comments)) = Some y"
  show "run_upto execute vid N tr comments tok y"
  proof (cases "int (length comments) < N")
    case False
    with body show ?thesis by (simp add: run_upto_def)
  next
    case lt: True
    show ?thesis
    proof (cases "execute (length tr) ?q")
      case (ApiRaises e)
      with body lt have "y = (tr @ [ApiCall ?q], Inl (Exception (''Error fetching comments: '' @ e)))"
        by simp
      with ApiRaises lt show ?thesis
        unfolding run_upto_def
        by (simp add: Let_def) (intro exI [of _ "[]"], simp add: token_after_def count_items_def)
    next
      case (ApiReturns r)
      let ?cs = "comments @ map comment_of_item (items r)"
      show ?thesis
      proof (cases "falsy (nextPageToken r)")
        case True
        with body lt ApiReturns have "y = (tr @ [ApiCall ?q], Inr ?cs)" by simp
        with ApiReturns True lt show ?thesis
          unfolding run_upto_def
          by (simp add: Let_def)
            (intro exI [of _ "[]"], simp add: token_after_def count_items_def comments_of_def)
      next
        case False
        with body lt ApiReturns have "f execute vid N (tr @ [ApiCall ?q]) ?cs (nextPageToken r) = Some y"
          by simp
        then have run: "run_upto execute vid N (tr @ [ApiCall ?q]) ?cs (nextPageToken r) y"
          by (rule IH)
        show ?thesis
        proof (cases "int (length ?cs) < N")
          case stop: False
          with run have "y = (tr @ [ApiCall ?q], Inr ?cs)" by (simp add: run_upto_def)
          with ApiReturns stop lt show ?thesis
            unfolding run_upto_def
            by (simp add: Let_def)
              (intro exI [of _ "[]"], simp add: token_after_def count_items_def comments_of_def)
        next
          case go: True
          with run obtain rs where
            rs: "answers execute (Suc (length tr))
                   (requests_upto vid N (length ?cs) (nextPageToken r) rs) rs"
              "continue_upto N (length ?cs) rs"
              "fst y = (tr @ [ApiCall ?q])
                 @ map ApiCall (requests_upto vid N (length ?cs) (nextPageToken r) rs)
                 @ [ApiCall \<lparr>videoId = vid,
                      maxResults = min 100 (N - int (length ?cs + count_items rs)),
                      pageToken = token_after (nextPageToken r) rs\<rparr>]"
              "case execute (Suc (length tr) + length rs)
                      \<lparr>videoId = vid,
                        maxResults = min 100 (N - int (length ?cs + count_items rs)),
                        pageToken = token_after (nextPageToken r) rs\<rparr> of
                 ApiRaises e \<Rightarrow> snd y = Inl (Exception (''Error fetching comments: '' @ e))
               | ApiReturns r' \<Rightarrow>
                   (falsy (nextPageToken r')
                      \<or> N \<le> int (length ?cs + count_items rs + length (items r')))
                   \<and> snd y = Inr (?cs @ comments_of rs @ map comment_of_item (items r'))"
            unfolding run_upto_def Let_def by auto
          have "\<exists>rs. answers execute (length tr) (requests_upto vid N (length comments) tok rs) rs
             \<and> continue_upto N (length comments) rs
             \<and> (let fetched = length comments + count_items rs;
                     q = \<lparr>videoId = vid, maxResults = min 100 (N - int fetched),
                          pageToken = token_after tok rs\<rparr> in
                 fst y = tr @ map ApiCall (requests_upto vid N (length comments) tok rs) @ [ApiCall q]
                 \<and> (case execute (length tr + length rs) q of
                       ApiRaises e \<Rightarrow> snd y = Inl (Exception (''Error fetching comments: '' @ e))
                     | ApiReturns r \<Rightarrow>
                         (falsy (nextPageToken r) \<or> N \<le> int (fetched + length (items r)))
                         \<and> snd y = Inr (comments @ comments_of rs @ map comment_of_item (items r))))"
            using ApiReturns False go rs
            by (intro exI [of _ "r # rs"])
              (auto simp: Let_def token_after_Cons comments_of_Cons count_items_Cons add.assoc
                split: api_outcome.splits)
          with lt show ?thesis by (simp add: run_upto_def)
        qed
      qed
    qed
  qed
qed

lemma fetch_comments_loop_iff:
  "fetch_comments_loop execute vid N tr comments tok = Some y
     \<longleftrightarrow> run_upto execute vid N tr comments tok y"
  using fetch_comments_loop_sound fetch_comments_loop_complete by blast

subsection \<open>The fetcher\<close>

lemma answers_length: "answers execute k qs rs \<Longrightarrow> length qs = length rs"
  by (induction execute k qs rs rule: answers.induct) simp_all

lemma answers_nth:
  "answers execute k qs rs \<Longrightarrow> i < length qs \<Longrightarrow> execute (k + i) (qs ! i) = ApiReturns (rs ! i)"
proof (induction execute k qs rs arbitrary: i rule: answers.induct)
  case (2 execute k q qs r rs)
  then show ?case by (cases i) simp_all
qed simp_all

lemma answers_snoc:
  "length qs = length rs \<Longrightarrow>
   answers execute k (qs @ [q]) (rs @ [r])
     \<longleftrightarrow> answers execute k qs rs \<and> execute (k + length rs) q = ApiReturns r"
proof (induction execute k qs rs rule: answers.induct)
  case (2 execute k q' qs r' rs)
  then show ?case by auto
qed simp_all

lemma requests_all_snoc:
  "requests_all vid tok (rs @ [r])
     = requests_all vid tok rs @ [\<lparr>videoId = vid, maxResults = 100, pageToken = token_after tok rs\<rparr>]"
  by (induction rs arbitrary: tok) (simp_all add: token_after_def)

lemma requests_upto_snoc:
  "requests_upto vid N fetched tok (rs @ [r])
     = requests_upto vid N fetched tok rs
       @ [\<lparr>videoId = vid, maxResults = min 100 (N - int (fetched + count_items rs)),
            pageToken = token_after tok rs\<rparr>]"
proof (induction rs arbitrary: fetched tok)
  case Nil
  then show ?case by (simp add: token_after_def count_items_def)
next
  case (Cons a rs)
  then show ?case by (simp add: token_after_Cons count_items_Cons add.assoc)
qed

lemma comments_of_snoc: "comments_of (rs @ [r]) = comments_of rs @ map comment_of_item (items r)"
  by (simp add: comments_of_def)

lemma count_items_snoc: "count_items (rs @ [r]) = count_items rs + length (items r)"
  by (simp add: count_items_def)

lemma run_all_initial:
  "run_all execute vid [] [] None y \<longleftrightarrow>
     (\<exists>rs. answers execute 0 (requests_all vid None rs) rs
        \<and> (\<forall>r\<in>set rs. \<not> falsy (nextPageToken r))
        \<and> fst y = map ApiCall (requests_all vid None rs)
             @ [ApiCall \<lparr>videoId = vid, maxResults = 100, pageToken = token_after None rs\<rparr>]
        \<and> (case execute (length rs)
                   \<lparr>videoId = vid, maxResults = 100, pageToken = token_after None rs\<rparr> of
              ApiRaises e \<Rightarrow> snd y = Inl (Exception (''Error fetching comments: '' @ e))
            | ApiReturns r \<Rightarrow>
                falsy (nextPageToken r)
                \<and> snd y = Inr (comments_of rs @ map comment_of_item (items r))))"
  by (simp add: run_all_def Let_def cong: api_outcome.case_cong)

text \<open>The trace of a run that ends consists of requests, each answered as the API answers it.\<close>

lemma run_all_trace:
  assumes "run_all execute vid [] [] None y" "i < length (fst y)" "fst y ! i = ApiCall q"
    "execute i q = ApiRaises e"
  shows "snd y = Inl (Exception (''Error fetching comments: '' @ e)) \<and> Suc i = length (fst y)"
proof -
  from assms(1) obtain rs where rs: "answers execute 0 (requests_all vid None rs) rs"
    and y: "fst y = map ApiCall (requests_all vid None rs)
                @ [ApiCall \<lparr>videoId = vid, maxResults = 100, pageToken = token_after None rs\<rparr>]"
      "case execute (length rs) \<lparr>videoId = vid, maxResults = 100, pageToken = token_after None rs\<rparr> of
         ApiRaises e \<Rightarrow> snd y = Inl (Exception (''Error fetching comments: '' @ e))
       | ApiReturns r \<Rightarrow> falsy (nextPageToken r)
            \<and> snd y = Inr (comments_of rs @ map comment_of_item (items r))"
    unfolding run_all_initial by blast
  have len: "length (requests_all vid None rs) = length rs" by (rule length_requests_all)
  have "\<not> i < length rs"
  proof
    assume lt: "i < length rs"
    with y(1) assms(3) have "q = requests_all vid None rs ! i"
      by (simp add: nth_append len)
    moreover from rs lt have "execute (0 + i) (requests_all vid None rs ! i) = ApiReturns (rs ! i)"
      by (intro answers_nth) (simp_all add: len)
    ultimately show False using assms(4) by simp
  qed
  with assms(2) y(1) have i: "i = length rs" by (simp add: len)
  with y(1) assms(3) have "q = \<lparr>videoId = vid, maxResults = 100, pageToken = token_after None rs\<rparr>"
    by (simp add: nth_append len)
  with y(2) assms(4) i have "snd y = Inl (Exception (''Error fetching comments: '' @ e))" by simp
  with i y(1) show ?thesis by (simp add: len)
qed

lemma run_upto_initial:
  "0 < N \<Longrightarrow> run_upto execute vid N [] [] None y \<longleftrightarrow>
     (\<exists>rs. answers execute 0 (requests_upto vid N 0 None rs) rs
        \<and> continue_upto N 0 rs
        \<and> fst y = map ApiCall (requests_upto vid N 0 None rs)
             @ [ApiCall \<lparr>videoId = vid, maxResults = min 100 (N - int (count_items rs)),
                         pageToken = token_after None rs\<rparr>]
        \<and> (case execute (length rs)
                   \<lparr>videoId = vid, maxResults = min 100 (N - int (count_items rs)),
                     pageToken = token_after None rs\<rparr> of
              ApiRaises e \<Rightarrow> snd y = Inl (Exception (''Error fetching comments: '' @ e))
            | ApiReturns r \<Rightarrow>
                (falsy (nextPageToken r) \<or> N \<le> int (count_items rs + length (items r)))
                \<and> snd y = Inr (comments_of rs @ map comment_of_item (items r))))"
  by (simp add: run_upto_def Let_def cong: api_outcome.case_cong)

lemma run_upto_trace:
  assumes "run_upto execute vid N [] [] None y" "i < length (fst y)" "fst y ! i = ApiCall q"
    "execute i q = ApiRaises e"
  shows "snd y = Inl (Exception (''Error fetching comments: '' @ e)) \<and> Suc i = length (fst y)"
proof (cases "0 < N")
  case False
  with assms(1) have "fst y = []" by (simp add: run_upto_def)
  with assms(2) show ?thesis by simp
next
  case True
  let ?q = "\<lambda>rs. \<lparr>videoId = vid, maxResults = min 100 (N - int (count_items rs)),
                    pageToken = token_after None rs\<rparr>"
  from assms(1) True obtain rs where rs: "answers execute 0 (requests_upto vid N 0 None rs) rs"
    and y: "fst y = map ApiCall (requests_upto vid N 0 None rs) @ [ApiCall (?q rs)]"
      "case execute (length rs) (?q rs) of
         ApiRaises e \<Rightarrow> snd y = Inl (Exception (''Error fetching comments: '' @ e))
       | ApiReturns r \<Rightarrow>
           (falsy (nextPageToken r) \<or> N \<le> int (count_items rs + length (items r)))
           \<and> snd y = Inr (comments_of rs @ map comment_of_item (items r))"
    unfolding run_upto_initial [OF True] by blast
  have len: "length (requests_upto vid N 0 None rs) = length rs" by (rule length_requests_upto)
  have "\<not> i < length rs"
  proof
    assume lt: "i < length rs"
    with y(1) assms(3) have "q = requests_upto vid N 0 None rs ! i"
      by (simp add: nth_append len)
    moreover from rs lt have "execute (0 + i) (requests_upto vid N 0 None rs ! i) = ApiReturns (rs ! i)"
      by (intro answers_nth) (simp_all add: len)
    ultimately show False using assms(4) by simp
  qed
  with assms(2) y(1) have i: "i = length rs" by (simp add: len)
  with y(1) assms(3) have "q = ?q rs"
    by (simp add: nth_append len)
  with y(2) assms(4) i have "snd y = Inl (Exception (''Error fetching comments: '' @ e))" by simp
  with i y(1) show ?thesis by (simp add: len)
qed

lemma requests_upto_nth:
  "i < length rs \<Longrightarrow>
   requests_upto vid N fetched tok rs ! i
     = \<lparr>videoId = vid, maxResults = min 100 (N - int (fetched + count_items (take i rs))),
        pageToken = (if i = 0 then tok else nextPageToken (rs ! (i - 1)))\<rparr>"
proof (induction rs arbitrary: fetched tok i)
  case Nil
  then show ?case by simp
next
  case (Cons a rs)
  show ?case
  proof (cases i)
    case 0
    then show ?thesis by (simp add: count_items_def)
  next
    case (Suc j)
    with Cons.prems have j: "j < length rs" by simp
    show ?thesis
      using Cons.IH [OF j, of "fetched + length (items a)" "nextPageToken a"] Suc
      by (cases j) (simp_all add: count_items_Cons add.assoc)
  qed
qed

lemma fetch_precondition_video_id:
  assumes "falsy (get_video_id url)"
  shows "fetch_all_comments key execute url
           = Some ([], Inl (ValueError ''Invalid YouTube URL or unable to extract video ID''))"
    and "fetch_comments key execute url N
           = Some ([], Inl (ValueError ''Invalid YouTube URL or unable to extract video ID''))"
  using assms by (simp_all add: fetch_all_comments_def fetch_comments_def raise_def)

lemma fetch_precondition_key:
  assumes "falsy key"
  shows "\<exists>msg. fetch_all_comments key execute url = Some ([], Inl (ValueError msg))"
    and "\<exists>msg. fetch_comments key execute url N = Some ([], Inl (ValueError msg))"
  using assms by (simp_all add: fetch_all_comments_def fetch_comments_def raise_def Let_def)

lemma fetch_all_comments_loop:
  assumes "get_video_id url = Some vid" "vid \<noteq> []" "\<not> falsy key"
  shows "fetch_all_comments key execute url = fetch_all_loop execute vid [] [] None"
  using assms by (simp add: fetch_all_comments_def falsy_def)

lemma fetch_comments_loop:
  assumes "get_video_id url = Some vid" "vid \<noteq> []" "\<not> falsy key"
  shows "fetch_comments key execute url N =
     (case fetch_comments_loop execute vid N [] [] None of
        None \<Rightarrow> None
      | Some (tr, Inl e) \<Rightarrow> Some (tr, Inl e)
      | Some (tr, Inr comments) \<Rightarrow> Some (tr, Inr (slice_to N comments)))"
  using assms
  by (auto simp: fetch_comments_def falsy_def bind_io_def ret_def split: option.splits sum.splits)

lemma fetch_all_comments_abort:
  assumes "fetch_all_comments key execute url = Some (tr, res)"
    "i < length tr" "tr ! i = ApiCall q" "execute i q = ApiRaises e"
  shows "res = Inl (Exception (''Error fetching comments: '' @ e)) \<and> Suc i = length tr"
proof (cases "falsy (get_video_id url) \<or> falsy key")
  case True
  then have "\<exists>r. fetch_all_comments key execute url = Some ([], r)"
    using fetch_precondition_video_id(1) fetch_precondition_key(1) by blast
  with assms(1,2) show ?thesis by auto
next
  case False
  then obtain vid where vid: "get_video_id url = Some vid" "vid \<noteq> []"
    by (cases "get_video_id url") (auto simp: falsy_def)
  with False assms(1) have "fetch_all_loop execute vid [] [] None = Some (tr, res)"
    by (simp add: fetch_all_comments_loop)
  then have "run_all execute vid [] [] None (tr, res)" by (rule fetch_all_loop_sound)
  from run_all_trace [OF this] assms(2-4) show ?thesis by simp
qed

lemma fetch_comments_abort:
  assumes "fetch_comments key execute url N = Some (tr, res)"
    "i < length tr" "tr ! i = ApiCall q" "execute i q = ApiRaises e"
  shows "res = Inl (Exception (''Error fetching comments: '' @ e)) \<and> Suc i = length tr"
proof (cases "falsy (get_video_id url) \<or> falsy key")
  case True
  then have "\<exists>r. fetch_comments key execute url N = Some ([], r)"
    using fetch_precondition_video_id(2) fetch_precondition_key(2) by blast
  with assms(1,2) show ?thesis by auto
next
  case False
  then obtain vid where vid: "get_video_id url = Some vid" "vid \<noteq> []"
    by (cases "get_video_id url") (auto simp: falsy_def)
  with False assms(1) obtain r0 where loop: "fetch_comments_loop execute vid N [] [] None = Some (tr, r0)"
    and res: "res = (case r0 of Inl e \<Rightarrow> Inl e | Inr comments \<Rightarrow> Inr (slice_to N comments))"
    by (auto simp: fetch_comments_loop split: option.splits sum.splits)
  from loop have "run_upto execute vid N [] [] None (tr, r0)" by (rule fetch_comments_loop_sound)
  from run_upto_trace [OF this] assms(2-4)
  have "r0 = Inl (Exception (''Error fetching comments: '' @ e)) \<and> Suc i = length tr" by simp
  with res show ?thesis by simp
qed

lemma fetch_all_comments_error_run:
  assumes "get_video_id url = Some vid" "vid \<noteq> []" "\<not> falsy key"
    "answers execute 0 (requests_all vid None rs) rs" "\<forall>r\<in>set rs. \<not> falsy (nextPageToken r)"
    "execute (length rs) \<lparr>videoId = vid, maxResults = 100, pageToken = token_after None rs\<rparr> = ApiRaises e"
  shows "fetch_all_comments key execute url
     = Some (map ApiCall (requests_all vid None rs)
               @ [ApiCall \<lparr>videoId = vid, maxResults = 100, pageToken = token_after None rs\<rparr>],
             Inl (Exception (''Error fetching comments: '' @ e)))"
proof -
  let ?y = "(map ApiCall (requests_all vid None rs)
               @ [ApiCall \<lparr>videoId = vid, maxResults = 100, pageToken = token_after None rs\<rparr>],
             Inl (Exception (''Error fetching comments: '' @ e)) :: exn + raw_comment list)"
  have "run_all execute vid [] [] None ?y"
    unfolding run_all_initial using assms(4-6) by (intro exI [of _ rs]) simp
  then have "fetch_all_loop execute vid [] [] None = Some ?y" by (rule fetch_all_loop_complete)
  with assms(1-3) show ?thesis by (simp add: fetch_all_comments_loop)
qed

lemma fetch_all_comments_pages:
  assumes "get_video_id url = Some vid" "vid \<noteq> []" "\<not> falsy key" "pages \<noteq> []"
    "answers execute 0 (requests_all vid None pages) pages"
    "\<forall>r\<in>set (butlast pages). \<not> falsy (nextPageToken r)" "falsy (nextPageToken (last pages))"
  shows "fetch_all_comments key execute url
     = Some (map ApiCall (requests_all vid None pages), Inr (comments_of pages))"
proof -
  obtain rs r where pages: "pages = rs @ [r]"
    using assms(4) by (meson rev_exhaust)
  let ?q = "\<lparr>videoId = vid, maxResults = 100, pageToken = token_after None rs\<rparr>"
  let ?y = "(map ApiCall (requests_all vid None pages), Inr (comments_of pages) :: exn + raw_comment list)"
  from assms(5) have a: "answers execute 0 (requests_all vid None rs) rs"
    and q: "execute (length rs) ?q = ApiReturns r"
    unfolding pages requests_all_snoc by (simp_all add: answers_snoc length_requests_all)
  have "run_all execute vid [] [] None ?y"
    unfolding run_all_initial using a q assms(6,7)
    by (intro exI [of _ rs]) (simp add: pages requests_all_snoc comments_of_snoc)
  then have "fetch_all_loop execute vid [] [] None = Some ?y" by (rule fetch_all_loop_complete)
  with assms(1-3) show ?thesis by (simp add: fetch_all_comments_loop)
qed

lemma fetch_comments_error_run:
  assumes "get_video_id url = Some vid" "vid \<noteq> []" "\<not> falsy key" "0 < N"
    "answers execute 0 (requests_upto vid N 0 None rs) rs" "continue_upto N 0 rs"
    "execute (length rs) \<lparr>videoId = vid, maxResults = min 100 (N - int (count_items rs)),
                           pageToken = token_after None rs\<rparr> = ApiRaises e"
  shows "fetch_comments key execute url N
     = Some (map ApiCall (requests_upto vid N 0 None rs)
               @ [ApiCall \<lparr>videoId = vid, maxResults = min 100 (N - int (count_items rs)),
                            pageToken = token_after None rs\<rparr>],
             Inl (Exception (''Error fetching comments: '' @ e)))"
proof -
  let ?y = "(map ApiCall (requests_upto vid N 0 None rs)
               @ [ApiCall \<lparr>videoId = vid, maxResults = min 100 (N - int (count_items rs)),
                            pageToken = token_after None rs\<rparr>],
             Inl (Exception (''Error fetching comments: '' @ e)) :: exn + raw_comment list)"
  have "run_upto execute vid N [] [] None ?y"
    unfolding run_upto_initial [OF assms(4)] using assms(5-7) by (intro exI [of _ rs]) simp
  then have "fetch_comments_loop execute vid N [] [] None = Some ?y" by (rule fetch_comments_loop_complete)
  with assms(1-3) show ?thesis by (simp add: fetch_comments_loop)
qed

lemma fetch_comments_pages:
  assumes "get_video_id url = Some vid" "vid \<noteq> []" "\<not> falsy key" "pages \<noteq> []" "0 < N"
    "answers execute 0 (requests_upto vid (int N) 0 None pages) pages"
    "continue_upto (int N) 0 (butlast pages)"
    "falsy (nextPageToken (last pages)) \<or> N \<le> count_items pages"
  shows "fetch_comments key execute url (int N)
     = Some (map ApiCall (requests_upto vid (int N) 0 None pages), Inr (take N (comments_of pages)))"
proof -
  obtain rs r where pages: "pages = rs @ [r]"
    using assms(4) by (meson rev_exhaust)
  let ?q = "\<lparr>videoId = vid, maxResults = min 100 (int N - int (count_items rs)),
             pageToken = token_after None rs\<rparr>"
  let ?y = "(map ApiCall (requests_upto vid (int N) 0 None pages), Inr (comments_of pages)
             :: exn + raw_comment list)"
  from assms(6) have a: "answers execute 0 (requests_upto vid (int N) 0 None rs) rs"
    and q: "execute (length rs) ?q = ApiReturns r"
    unfolding pages requests_upto_snoc by (simp_all add: answers_snoc length_requests_upto)
  have N: "(0::int) < int N" using assms(5) by simp
  have "run_upto execute vid (int N) [] [] None ?y"
    unfolding run_upto_initial [OF N] using a q assms(7,8)
    by (intro exI [of _ rs]) (auto simp: pages requests_upto_snoc comments_of_snoc count_items_snoc)
  then have "fetch_comments_loop execute vid (int N) [] [] None = Some ?y"
    by (rule fetch_comments_loop_complete)
  with assms(1-3) show ?thesis by (simp add: fetch_comments_loop slice_to_def)
qed

lemma fetch_comments_zero:
  assumes "get_video_id url = Some vid" "vid \<noteq> []" "\<not> falsy key"
  shows "fetch_comments key execute url 0 = Some ([], Inr [])"
  using assms by (simp add: fetch_comments_loop fetch_comments_loop_done slice_to_def)

lemma fetch_comments_at_most:
  assumes "fetch_comments key execute url (int N) = Some (tr, Inr cs)"
  shows "length cs \<le> N"
proof -
  from assms have "\<exists>m. bind_io m (\<lambda>comments. ret (slice_to (int N) comments)) = (tr, Inr cs)"
    by (auto simp: fetch_comments_def Let_def raise_def split: if_splits option.splits)
  then obtain tr0 r0 where m: "bind_io (tr0, r0) (\<lambda>comments. ret (slice_to (int N) comments)) = (tr, Inr cs)"
    by (metis surj_pair)
  then have "\<exists>comments. cs = slice_to (int N) comments"
    by (cases r0) (auto simp: bind_io_def ret_def)
  then show ?thesis by (auto simp: slice_to_def)
qed

text \<open>
  C6. Let the video identifier resolve and the API key be there. \<^verbatim>\<open>fetch_comments\<close> with the
  cap \<open>N\<close> never returns more than \<open>N\<close> comments. When the API answers the requests of the
  fetch with the pages \<open>pages\<close>, where every page but the last has a next-page token and
  leaves fewer than \<open>N\<close> comments fetched, and the last page has no token or reaches \<open>N\<close>,
  then the fetch ends after exactly these pages and returns the first \<open>N\<close> of their comments
  in the order of arrival; request number \<open>i\<close> asks for \<open>min 100 (N - fetched)\<close> items,
  \<open>fetched\<close> being the number of items of the pages before, and carries the token of the
  page before. With the cap \<open>0\<close> no request is made. \<^verbatim>\<open>fetch_all_comments\<close> returns the
  comments of all pages up to the first page without token, however many pages there are.
\<close>

theorem fetch_comments_page_run:
  assumes "get_video_id url = Some vid" "vid \<noteq> []" "\<not> falsy key"
  shows "(\<forall>tr cs. fetch_comments key execute url (int N) = Some (tr, Inr cs) \<longrightarrow> length cs \<le> N)
   \<and> (pages \<noteq> [] \<and> 0 < N
        \<and> answers execute 0 (requests_upto vid (int N) 0 None pages) pages
        \<and> continue_upto (int N) 0 (butlast pages)
        \<and> (falsy (nextPageToken (last pages)) \<or> N \<le> count_items pages)
      \<longrightarrow> fetch_comments key execute url (int N)
            = Some (map ApiCall (requests_upto vid (int N) 0 None pages),
                    Inr (take N (comments_of pages))))
   \<and> (\<forall>i<length pages.
         requests_upto vid (int N) 0 None pages ! i
           = \<lparr>videoId = vid, maxResults = min 100 (int N - int (count_items (take i pages))),
              pageToken = (if i = 0 then None else nextPageToken (pages ! (i - 1)))\<rparr>)
   \<and> fetch_comments key execute url 0 = Some ([], Inr [])
   \<and> (pages \<noteq> []
        \<and> answers execute 0 (requests_all vid None pages) pages
        \<and> (\<forall>r\<in>set (butlast pages). \<not> falsy (nextPageToken r))
        \<and> falsy (nextPageToken (last pages))
      \<longrightarrow> fetch_all_comments key execute url
            = Some (map ApiCall (requests_all vid None pages), Inr (comments_of pages)))"
proof -
  have a: "\<forall>tr cs. fetch_comments key execute url (int N) = Some (tr, Inr cs) \<longrightarrow> length cs \<le> N"
    using fetch_comments_at_most by blast
  have b: "pages \<noteq> [] \<and> 0 < N
        \<and> answers execute 0 (requests_upto vid (int N) 0 None pages) pages
        \<and> continue_upto (int N) 0 (butlast pages)
        \<and> (falsy (nextPageToken (last pages)) \<or> N \<le> count_items pages)
      \<longrightarrow> fetch_comments key execute url (int N)
            = Some (map ApiCall (requests_upto vid (int N) 0 None pages),
                    Inr (take N (comments_of pages)))"
    using fetch_comments_pages [OF assms] by blast
  have c: "\<forall>i<length pages.
         requests_upto vid (int N) 0 None pages ! i
           = \<lparr>videoId = vid, maxResults = min 100 (int N - int (count_items (take i pages))),
              pageToken = (if i = 0 then None else nextPageToken (pages ! (i - 1)))\<rparr>"
    by (simp add: requests_upto_nth)
  have d: "fetch_comments key execute url 0 = Some ([], Inr [])"
    using assms by (rule fetch_comments_zero)
  have e: "pages \<noteq> []
        \<and> answers execute 0 (requests_all vid None pages) pages
        \<and> (\<forall>r\<in>set (butlast pages). \<not> falsy (nextPageToken r))
        \<and> falsy (nextPageToken (last pages))
      \<longrightarrow> fetch_all_comments key execute url
            = Some (map ApiCall (requests_all vid None pages), Inr (comments_of pages))"
    using fetch_all_comments_pages [OF assms] by blast
  from a b c d e show ?thesis by blast
qed

theorem fetch_comments_page_run_witness:
  "get_video_id sample_url = Some ''dQw4w9WgXcQ''
   \<and> fetch_comments (Some ''key'') api_three_pages sample_url 3
       = Some ([ApiCall \<lparr>videoId = ''dQw4w9WgXcQ'', maxResults = 3, pageToken = None\<rparr>,
                ApiCall \<lparr>videoId = ''dQw4w9WgXcQ'', maxResults = 1, pageToken = Some ''p2''\<rparr>],
               Inr (map comment_of_item
                      [sample_item ''c1'' ''Great video'', sample_item ''c2'' ''what a stupid take'',
                       sample_item ''c3'' ''bonjour'']))
   \<and> fetch_all_comments (Some ''key'') api_three_pages sample_url
       = Some ([ApiCall \<lparr>videoId = ''dQw4w9WgXcQ'', maxResults = 100, pageToken = None\<rparr>,
                ApiCall \<lparr>videoId = ''dQw4w9WgXcQ'', maxResults = 100, pageToken = Some ''p2''\<rparr>,
                ApiCall \<lparr>videoId = ''dQw4w9WgXcQ'', maxResults = 100, pageToken = Some ''p3''\<rparr>],
               Inr (map comment_of_item
                      [sample_item ''c1'' ''Great video'', sample_item ''c2'' ''what a stupid take'',
                       sample_item ''c3'' ''bonjour'', sample_item ''c4'' ''meh'',
                       sample_item ''c5'' ''!!!'']))"
proof -
  have v: "get_video_id sample_url = Some ''dQw4w9WgXcQ''" by code_simp
  have k: "\<not> falsy (Some ''key'')" by (simp add: falsy_def)
  have n: "''dQw4w9WgXcQ'' \<noteq> []" by simp
  have u: "[page1, page2] \<noteq> [] \<and> 0 < (3::nat)
      \<and> answers api_three_pages 0 (requests_upto ''dQw4w9WgXcQ'' (int 3) 0 None [page1, page2]) [page1, page2]
      \<and> continue_upto (int 3) 0 (butlast [page1, page2])
      \<and> (falsy (nextPageToken (last [page1, page2])) \<or> 3 \<le> count_items [page1, page2])"
    by (simp add: api_three_pages_def page1_def page2_def falsy_def count_items_def)
  have a: "[page1, page2, page3] \<noteq> []
      \<and> answers api_three_pages 0 (requests_all ''dQw4w9WgXcQ'' None [page1, page2, page3]) [page1, page2, page3]
      \<and> (\<forall>r\<in>set (butlast [page1, page2, page3]). \<not> falsy (nextPageToken r))
      \<and> falsy (nextPageToken (last [page1, page2, page3]))"
    by (simp add: api_three_pages_def page1_def page2_def page3_def falsy_def)
  have "fetch_comments (Some ''key'') api_three_pages sample_url (int 3)
      = Some (map ApiCall (requests_upto ''dQw4w9WgXcQ'' (int 3) 0 None [page1, page2]),
              Inr (take 3 (comments_of [page1, page2])))"
    using fetch_comments_page_run [OF v n k, of api_three_pages 3 "[page1, page2]"] u by blast
  moreover have "fetch_all_comments (Some ''key'') api_three_pages sample_url
      = Some (map ApiCall (requests_all ''dQw4w9WgXcQ'' None [page1, page2, page3]),
              Inr (comments_of [page1, page2, page3]))"
    using fetch_comments_page_run [OF v n k, of api_three_pages 3 "[page1, page2, page3]"] a by blast
  ultimately show ?thesis
    using v by (simp add: comments_of_def page1_def page2_def page3_def)
qed

text \<open>
  C7. When the video identifier cannot be resolved, or the API key is absent, both fetches
  raise a \<^verbatim>\<open>ValueError\<close> and the trace of requests is empty. When a fetch ends and a request of
  its trace was answered with an error, then this request is the last one of the trace and
  the result is the exception with the message of that error after the prefix
  \<^verbatim>\<open>Error fetching comments: \<close>, not a list of comments. And when the API answers with
  an error after pages that let the loop go on, the fetch does end, in that way.
\<close>

theorem fetch_aborts_on_error:
  "(falsy (get_video_id url) \<longrightarrow>
       fetch_all_comments key execute url
         = Some ([], Inl (ValueError ''Invalid YouTube URL or unable to extract video ID''))
     \<and> fetch_comments key execute url N
         = Some ([], Inl (ValueError ''Invalid YouTube URL or unable to extract video ID'')))
   \<and> (falsy key \<longrightarrow>
       (\<exists>msg. fetch_all_comments key execute url = Some ([], Inl (ValueError msg)))
     \<and> (\<exists>msg. fetch_comments key execute url N = Some ([], Inl (ValueError msg))))
   \<and> (\<forall>tr res i q e.
        (fetch_all_comments key execute url = Some (tr, res)
           \<or> fetch_comments key execute url N = Some (tr, res))
        \<and> i < length tr \<and> tr ! i = ApiCall q \<and> execute i q = ApiRaises e
        \<longrightarrow> res = Inl (Exception (''Error fetching comments: '' @ e)) \<and> Suc i = length tr)
   \<and> (\<forall>vid rs e.
        get_video_id url = Some vid \<and> vid \<noteq> [] \<and> \<not> falsy key
        \<and> answers execute 0 (requests_all vid None rs) rs
        \<and> (\<forall>r\<in>set rs. \<not> falsy (nextPageToken r))
        \<and> execute (length rs) \<lparr>videoId = vid, maxResults = 100, pageToken = token_after None rs\<rparr>
            = ApiRaises e
        \<longrightarrow> fetch_all_comments key execute url
            = Some (map ApiCall (requests_all vid None rs)
                      @ [ApiCall \<lparr>videoId = vid, maxResults = 100, pageToken = token_after None rs\<rparr>],
                    Inl (Exception (''Error fetching comments: '' @ e))))
   \<and> (\<forall>vid rs e.
        get_video_id url = Some vid \<and> vid \<noteq> [] \<and> \<not> falsy key \<and> 0 < N
        \<and> answers execute 0 (requests_upto vid N 0 None rs) rs
        \<and> continue_upto N 0 rs
        \<and> execute (length rs) \<lparr>videoId = vid, maxResults = min 100 (N - int (count_items rs)),
                                 pageToken = token_after None rs\<rparr> = ApiRaises e
        \<longrightarrow> fetch_comments key execute url N
            = Some (map ApiCall (requests_upto vid N 0 None rs)
                      @ [ApiCall \<lparr>videoId = vid, maxResults = min 100 (N - int (count_items rs)),
                                   pageToken = token_after None rs\<rparr>],
                    Inl (Exception (''Error fetching comments: '' @ e))))"
proof -
  have a: "falsy (get_video_id url) \<longrightarrow>
       fetch_all_comments key execute url
         = Some ([], Inl (ValueError ''Invalid YouTube URL or unable to extract video ID''))
     \<and> fetch_comments key execute url N
         = Some ([], Inl (ValueError ''Invalid YouTube URL or unable to extract video ID''))"
    using fetch_precondition_video_id by blast
  have b: "falsy key \<longrightarrow>
       (\<exists>msg. fetch_all_comments key execute url = Some ([], Inl (ValueError msg)))
     \<and> (\<exists>msg. fetch_comments key execute url N = Some ([], Inl (ValueError msg)))"
    using fetch_precondition_key by blast
  have c: "\<forall>tr res i q e.
        (fetch_all_comments key execute url = Some (tr, res)
           \<or> fetch_comments key execute url N = Some (tr, res))
        \<and> i < length tr \<and> tr ! i = ApiCall q \<and> execute i q = ApiRaises e
        \<longrightarrow> res = Inl (Exception (''Error fetching comments: '' @ e)) \<and> Suc i = length tr"
    using fetch_all_comments_abort fetch_comments_abort by blast
  have d: "\<forall>vid rs e.
        get_video_id url = Some vid \<and> vid \<noteq> [] \<and> \<not> falsy key
        \<and> answers execute 0 (requests_all vid None rs) rs
        \<and> (\<forall>r\<in>set rs. \<not> falsy (nextPageToken r))
        \<and> execute (length rs) \<lparr>videoId = vid, maxResults = 100, pageToken = token_after None rs\<rparr>
            = ApiRaises e
        \<longrightarrow> fetch_all_comments key execute url
            = Some (map ApiCall (requests_all vid None rs)
                      @ [ApiCall \<lparr>videoId = vid, maxResults = 100, pageToken = token_after None rs\<rparr>],
                    Inl (Exception (''Error fetching comments: '' @ e)))"
    using fetch_all_comments_error_run by blast
  have e: "\<forall>vid rs e.
        get_video_id url = Some vid \<and> vid \<noteq> [] \<and> \<not> falsy key \<and> 0 < N
        \<and> answers execute 0 (requests_upto vid N 0 None rs) rs
        \<and> continue_upto N 0 rs
        \<and> execute (length rs) \<lparr>videoId = vid, maxResults = min 100 (N - int (count_items rs)),
                                 pageToken = token_after None rs\<rparr> = ApiRaises e
        \<longrightarrow> fetch_comments key execute url N
            = Some (map ApiCall (requests_upto vid N 0 None rs)
                      @ [ApiCall \<lparr>videoId = vid, maxResults = min 100 (N - int (count_items rs)),
                                   pageToken = token_after None rs\<rparr>],
                    Inl (Exception (''Error fetching comments: '' @ e)))"
    using fetch_comments_error_run by blast
  from a b c d e show ?thesis by blast
qed

theorem fetch_aborts_on_error_witness:
  "falsy (get_video_id ''not a video address'')
   \<and> fetch_all_comments (Some ''key'') api_three_pages ''not a video address''
       = Some ([], Inl (ValueError ''Invalid YouTube URL or unable to extract video ID''))
   \<and> fetch_comments (Some ''key'') api_three_pages ''not a video address'' 5
       = Some ([], Inl (ValueError ''Invalid YouTube URL or unable to extract video ID''))
   \<and> (\<exists>msg. fetch_all_comments None api_three_pages sample_url = Some ([], Inl (ValueError msg)))
   \<and> (\<exists>msg. fetch_comments None api_three_pages sample_url 5 = Some ([], Inl (ValueError msg)))
   \<and> fetch_all_comments (Some ''key'') api_quota sample_url
       = Some ([ApiCall \<lparr>videoId = ''dQw4w9WgXcQ'', maxResults = 100, pageToken = None\<rparr>,
                ApiCall \<lparr>videoId = ''dQw4w9WgXcQ'', maxResults = 100, pageToken = Some ''p2''\<rparr>],
               Inl (Exception ''Error fetching comments: quotaExceeded''))
   \<and> fetch_comments (Some ''key'') api_quota sample_url 5
       = Some ([ApiCall \<lparr>videoId = ''dQw4w9WgXcQ'', maxResults = 5, pageToken = None\<rparr>,
                ApiCall \<lparr>videoId = ''dQw4w9WgXcQ'', maxResults = 3, pageToken = Some ''p2''\<rparr>],
               Inl (Exception ''Error fetching comments: quotaExceeded''))"
proof -
  have u: "falsy (get_video_id ''not a video address'')" by code_simp
  have v: "get_video_id sample_url = Some ''dQw4w9WgXcQ'' \<and> ''dQw4w9WgXcQ'' \<noteq> []
      \<and> \<not> falsy (Some ''key'')"
    by code_simp
  have n: "falsy None" by (simp add: falsy_def)
  have d: "answers api_quota 0 (requests_all ''dQw4w9WgXcQ'' None [page1]) [page1]
      \<and> (\<forall>r\<in>set [page1]. \<not> falsy (nextPageToken r))
      \<and> api_quota (length [page1])
           \<lparr>videoId = ''dQw4w9WgXcQ'', maxResults = 100, pageToken = token_after None [page1]\<rparr>
          = ApiRaises ''quotaExceeded''"
    by (simp add: api_quota_def page1_def falsy_def)
  have e: "(0::int) < 5 \<and> answers api_quota 0 (requests_upto ''dQw4w9WgXcQ'' 5 0 None [page1]) [page1]
      \<and> continue_upto 5 0 [page1]
      \<and> api_quota (length [page1])
           \<lparr>videoId = ''dQw4w9WgXcQ'', maxResults = min 100 (5 - int (count_items [page1])),
             pageToken = token_after None [page1]\<rparr>
          = ApiRaises ''quotaExceeded''"
    by (simp add: api_quota_def page1_def falsy_def)
  have t: "token_after None [page1] = Some ''p2''" "count_items [page1] = 2"
    by (simp_all add: token_after_def count_items_def page1_def)
  have 1: "fetch_all_comments (Some ''key'') api_three_pages ''not a video address''
        = Some ([], Inl (ValueError ''Invalid YouTube URL or unable to extract video ID''))
      \<and> fetch_comments (Some ''key'') api_three_pages ''not a video address'' 5
        = Some ([], Inl (ValueError ''Invalid YouTube URL or unable to extract video ID''))"
    using fetch_aborts_on_error [of "''not a video address''" "Some ''key''" api_three_pages 5] u
    by blast
  have 2: "(\<exists>msg. fetch_all_comments None api_three_pages sample_url = Some ([], Inl (ValueError msg)))
      \<and> (\<exists>msg. fetch_comments None api_three_pages sample_url 5 = Some ([], Inl (ValueError msg)))"
    using fetch_aborts_on_error [of sample_url None api_three_pages 5] n by blast
  have 3: "fetch_all_comments (Some ''key'') api_quota sample_url
        = Some (map ApiCall (requests_all ''dQw4w9WgXcQ'' None [page1])
                  @ [ApiCall \<lparr>videoId = ''dQw4w9WgXcQ'', maxResults = 100,
                               pageToken = token_after None [page1]\<rparr>],
                Inl (Exception (''Error fetching comments: '' @ ''quotaExceeded'')))"
    using fetch_aborts_on_error [of sample_url "Some ''key''" api_quota 5] v d by blast
  have 4: "fetch_comments (Some ''key'') api_quota sample_url 5
        = Some (map ApiCall (requests_upto ''dQw4w9WgXcQ'' 5 0 None [page1])
                  @ [ApiCall \<lparr>videoId = ''dQw4w9WgXcQ'',
                               maxResults = min 100 (5 - int (count_items [page1])),
                               pageToken = token_after None [page1]\<rparr>],
                Inl (Exception (''Error fetching comments: '' @ ''quotaExceeded'')))"
    using fetch_aborts_on_error [of sample_url "Some ''key''" api_quota 5] v e by blast
  from u 1 2 3 [unfolded t] 4 [unfolded t] show ?thesis by (simp add: page1_def)
qed

subsection \<open>The enrichment pipeline\<close>

lemma detect_language_value: "\<exists>tr code. detect_language u detect txt = (tr, Inr code)"
  by (simp add: detect_language_cases)

lemma translate_to_english_value: "\<exists>tr s. translate_to_english u detect translate txt None = (tr, Inr s)"
  by (auto simp: translate_to_english_cases detect_language_cases split: if_splits)

lemma analyze_sentiment_value: "\<exists>r. analyze_sentiment scorer txt = ([], Inr r)"
  by (simp add: analyze_sentiment_cases ret_def)

lemma process_comment_value:
  "\<exists>tr pc. process_comment u detect translate scorer c = (tr, Inr pc)
     \<and> enriched_from u detect translate scorer c pc"
proof -
  obtain tr1 l where dl: "detect_language u detect (text c) = (tr1, Inr l)"
    using detect_language_value by blast
  let ?tm = "if l \<noteq> (ustr ''en'') then translate_to_english u detect translate (text c) None else ret (text c)"
  have "\<exists>tr2 tt. ?tm = (tr2, Inr tt)"
    using translate_to_english_value [of u detect translate "text c"]
    by (cases "l = (ustr ''en'')") (simp_all add: ret_def)
  then obtain tr2 tt where tl: "?tm = (tr2, Inr tt)" by blast
  obtain r where an: "analyze_sentiment scorer tt = ([], Inr r)"
    using analyze_sentiment_value [of scorer tt] by blast
  let ?pc = "raw_comment.extend c
            \<lparr>original_language = l, translated_text = tt,
             sentiment = sentiment_result.sentiment r,
             polarity = sentiment_result.polarity r,
             is_toxic = detect_toxicity u tt\<rparr>"
  have "process_comment u detect translate scorer c = (tr1 @ tr2, Inr ?pc)"
    unfolding process_comment_def dl
    by (simp add: bind_io_value tl an ret_def)
  moreover have "enriched_from u detect translate scorer c ?pc"
    using tl by (simp add: enriched_from_def dl an raw_comment.defs processed_comment.defs)
  ultimately show ?thesis by blast
qed

lemma process_loop_value:
  "\<exists>tr out. process_loop u detect translate scorer cs acc = (tr, Inr (acc @ out))
     \<and> list_all2 (enriched_from u detect translate scorer) cs out"
proof (induction cs arbitrary: acc)
  case Nil
  then show ?case by (simp add: ret_def)
next
  case (Cons c cs)
  obtain tr pc where pc: "process_comment u detect translate scorer c = (tr, Inr pc)"
      "enriched_from u detect translate scorer c pc"
    using process_comment_value by blast
  obtain tr' out where out: "process_loop u detect translate scorer cs (acc @ [pc]) = (tr', Inr ((acc @ [pc]) @ out))"
      "list_all2 (enriched_from u detect translate scorer) cs out"
    using Cons.IH by blast
  have "process_loop u detect translate scorer (c # cs) acc = (tr @ tr', Inr (acc @ pc # out))"
    by (simp add: pc(1) bind_io_value out(1))
  with pc(2) out(2) show ?case by blast
qed

text \<open>
  C1. When the fetch of \<^verbatim>\<open>process_comments\<close> returns the raw comments \<open>comments\<close>, then
  \<^verbatim>\<open>process_comments\<close> returns a list \<open>out\<close> of the same length, and for every position \<open>i\<close>
  the record \<open>out ! i\<close> has all fields of \<open>comments ! i\<close>, as \<^verbatim>\<open>original_language\<close> the
  language detected in the raw text, as \<^verbatim>\<open>translated_text\<close> the translation of the raw text
  (the raw text itself when the language is \<^verbatim>\<open>en\<close>), as \<^verbatim>\<open>sentiment\<close> and \<^verbatim>\<open>polarity\<close>
  the result of the analysis of the translated text, and as \<^verbatim>\<open>is_toxic\<close> the toxicity of
  the translated text. No stage raises.
\<close>

theorem process_comments_enriches_in_order:
  assumes "(case max_comments of
              None \<Rightarrow> fetch_all_comments key execute url
            | Some n \<Rightarrow> fetch_comments key execute url n) = Some (tr0, Inr comments)"
  shows "\<exists>tr out. process_comments u key execute detect translate scorer url max_comments
                     = Some (tr0 @ tr, Inr out)
     \<and> length out = length comments
     \<and> (\<forall>i<length comments.
           raw_comment.truncate (out ! i) = comments ! i
           \<and> snd (detect_language u detect (text (comments ! i))) = Inr (original_language (out ! i))
           \<and> snd (if original_language (out ! i) \<noteq> (ustr ''en'')
                   then translate_to_english u detect translate (text (comments ! i)) None
                   else ret (text (comments ! i))) = Inr (translated_text (out ! i))
           \<and> snd (analyze_sentiment scorer (translated_text (out ! i)))
                = Inr \<lparr>sentiment_result.sentiment = sentiment (out ! i),
                       sentiment_result.polarity = polarity (out ! i)\<rparr>
           \<and> is_toxic (out ! i) = detect_toxicity u (translated_text (out ! i)))"
proof -
  obtain tr out where out: "process_loop u detect translate scorer comments [] = (tr, Inr out)"
      "list_all2 (enriched_from u detect translate scorer) comments out"
    using process_loop_value [of u detect translate scorer comments "[]"] by auto
  have "process_comments u key execute detect translate scorer url max_comments = Some (tr0 @ tr, Inr out)"
    using assms by (simp add: process_comments_def bind_io_value out(1))
  moreover have "length out = length comments"
    using out(2) by (simp add: list_all2_lengthD)
  moreover have "enriched_from u detect translate scorer (comments ! i) (out ! i)" if "i < length comments" for i
    using out(2) that by (simp add: list_all2_nthD)
  ultimately show ?thesis unfolding enriched_from_def by blast
qed

theorem process_comments_enriches_in_order_witness:
  "(case Some 3 of
      None \<Rightarrow> fetch_all_comments (Some ''key'') api_three_pages sample_url
    | Some n \<Rightarrow> fetch_comments (Some ''key'') api_three_pages sample_url n)
     = Some ([ApiCall \<lparr>videoId = ''dQw4w9WgXcQ'', maxResults = 3, pageToken = None\<rparr>,
              ApiCall \<lparr>videoId = ''dQw4w9WgXcQ'', maxResults = 1, pageToken = Some ''p2''\<rparr>],
             Inr (map comment_of_item
                    [sample_item ''c1'' ''Great video'', sample_item ''c2'' ''what a stupid take'',
                     sample_item ''c3'' ''bonjour'']))
   \<and> (\<exists>tr out.
         process_comments ascii_tables (Some ''key'') api_three_pages detect_fr translate_none
             scorer_words sample_url (Some 3)
           = Some ([ApiCall \<lparr>videoId = ''dQw4w9WgXcQ'', maxResults = 3, pageToken = None\<rparr>,
                    ApiCall \<lparr>videoId = ''dQw4w9WgXcQ'', maxResults = 1, pageToken = Some ''p2''\<rparr>]
                   @ tr, Inr out)
         \<and> length out = 3
         \<and> raw_comment.truncate (out ! 1) = comment_of_item (sample_item ''c2'' ''what a stupid take'')
         \<and> is_toxic (out ! 1) = detect_toxicity ascii_tables (translated_text (out ! 1)))"
proof -
  let ?tr0 = "[ApiCall \<lparr>videoId = ''dQw4w9WgXcQ'', maxResults = 3, pageToken = None\<rparr>,
               ApiCall \<lparr>videoId = ''dQw4w9WgXcQ'', maxResults = 1, pageToken = Some ''p2''\<rparr>]"
  let ?cs = "map comment_of_item
               [sample_item ''c1'' ''Great video'', sample_item ''c2'' ''what a stupid take'',
                sample_item ''c3'' ''bonjour'']"
  have f: "(case Some 3 of
      None \<Rightarrow> fetch_all_comments (Some ''key'') api_three_pages sample_url
    | Some n \<Rightarrow> fetch_comments (Some ''key'') api_three_pages sample_url n)
     = Some (?tr0, Inr ?cs)"
    by code_simp
  obtain tr out where o:
      "process_comments ascii_tables (Some ''key'') api_three_pages detect_fr translate_none
         scorer_words sample_url (Some 3) = Some (?tr0 @ tr, Inr out)"
      "length out = length ?cs"
      "\<forall>i<length ?cs. raw_comment.truncate (out ! i) = ?cs ! i
         \<and> is_toxic (out ! i) = detect_toxicity ascii_tables (translated_text (out ! i))"
    using process_comments_enriches_in_order [OF f, of ascii_tables detect_fr translate_none scorer_words]
    by blast
  from o(3) have "raw_comment.truncate (out ! 1) = ?cs ! 1
      \<and> is_toxic (out ! 1) = detect_toxicity ascii_tables (translated_text (out ! 1))"
    by simp
  with f o(1,2) show ?thesis by auto
qed

subsection \<open>Aggregation\<close>

text \<open>
  A counter built from a list has the elements of the list as its keys, each once and with the
  number of its occurrences; its values sum to the length of the list.
\<close>

lemma sum_counter_add: "sum_list (map snd (counter_add x d)) = Suc (sum_list (map snd d))"
  by (induction x d rule: counter_add.induct) simp_all

lemma map_of_counter_add:
  "map_of (counter_add x d) k
     = (if k = x then Some (case map_of d x of None \<Rightarrow> 1 | Some n \<Rightarrow> Suc n) else map_of d k)"
  by (induction x d rule: counter_add.induct) auto

lemma keys_counter_add: "fst ` set (counter_add x d) = insert x (fst ` set d)"
  by (induction x d rule: counter_add.induct) auto

lemma distinct_counter_add: "distinct (map fst d) \<Longrightarrow> distinct (map fst (counter_add x d))"
  by (induction x d rule: counter_add.induct) (auto simp: keys_counter_add)

lemma sum_counter_foldl:
  "sum_list (map snd (foldl (\<lambda>acc x. counter_add x acc) d xs)) = sum_list (map snd d) + length xs"
  by (induction xs arbitrary: d) (simp_all add: sum_counter_add)

lemma keys_counter_foldl:
  "fst ` set (foldl (\<lambda>acc x. counter_add x acc) d xs) = fst ` set d \<union> set xs"
  by (induction xs arbitrary: d) (simp_all add: keys_counter_add)

lemma distinct_counter_foldl:
  "distinct (map fst d) \<Longrightarrow> distinct (map fst (foldl (\<lambda>acc x. counter_add x acc) d xs))"
  by (induction xs arbitrary: d) (simp_all add: distinct_counter_add)

lemma map_of_counter_foldl:
  "map_of (foldl (\<lambda>acc x. counter_add x acc) d xs) k
     = (case map_of d k of
          None \<Rightarrow> if k \<in> set xs then Some (count_list xs k) else None
        | Some n \<Rightarrow> Some (n + count_list xs k))"
proof (induction xs arbitrary: d)
  case Nil
  then show ?case by (simp split: option.splits)
next
  case (Cons x xs)
  show ?case
    by (simp add: Cons.IH map_of_counter_add split: option.splits)
qed

lemma sum_Counter: "sum_list (dict_values (Counter xs)) = length xs"
  by (simp add: Counter_def dict_values_def sum_counter_foldl)

lemma keys_Counter: "set (dict_keys (Counter xs)) = set xs"
  by (simp add: Counter_def dict_keys_def keys_counter_foldl)

lemma distinct_Counter: "distinct (dict_keys (Counter xs))"
  by (simp add: Counter_def dict_keys_def distinct_counter_foldl)

lemma map_of_Counter:
  "map_of (Counter xs) k = (if k \<in> set xs then Some (count_list xs k) else None)"
  by (simp add: Counter_def map_of_counter_foldl)

lemma values_Counter_positive:
  assumes "n \<in> set (dict_values (Counter xs))"
  shows "1 \<le> n"
proof -
  from assms obtain k where "(k, n) \<in> set (Counter xs)"
    by (auto simp: dict_values_def)
  then have "map_of (Counter xs) k = Some n"
    using distinct_Counter [of xs] by (simp add: dict_keys_def)
  then have "k \<in> set xs" "n = count_list xs k"
    by (simp_all add: map_of_Counter split: if_splits)
  then show ?thesis
    by (metis One_nat_def Suc_leI count_list_0_iff neq0_conv)
qed

lemma dict_get_Counter: "dict_get (Counter xs) k 0 = count_list xs k"
  by (simp add: dict_get_def map_of_Counter count_list_0_iff)

text \<open>
  C10: in the summary of \<^verbatim>\<open>get_analysis_summary\<close> the keys of the sentiment distribution are
  exactly the labels that occur among the comments, and the keys of the language distribution
  exactly the languages that occur, each key once; every count in either distribution is at
  least 1; a label or a language that does not occur has no entry (it is not mapped to 0).
  The dashboard, which looks the three labels up with the default 0, gets the number of
  occurrences of each, also of an absent one.
\<close>

theorem summary_distribution_keys:
  "set (dict_keys (sentiment_distribution (get_analysis_summary cs))) = sentiment ` set cs
   \<and> set (dict_keys (language_distribution (get_analysis_summary cs))) = original_language ` set cs
   \<and> distinct (dict_keys (sentiment_distribution (get_analysis_summary cs)))
   \<and> distinct (dict_keys (language_distribution (get_analysis_summary cs)))
   \<and> (\<forall>n\<in>set (dict_values (sentiment_distribution (get_analysis_summary cs))). 1 \<le> n)
   \<and> (\<forall>n\<in>set (dict_values (language_distribution (get_analysis_summary cs))). 1 \<le> n)
   \<and> (l \<notin> sentiment ` set cs \<longrightarrow>
        map_of (sentiment_distribution (get_analysis_summary cs)) l = None)
   \<and> (lang \<notin> original_language ` set cs \<longrightarrow>
        map_of (language_distribution (get_analysis_summary cs)) lang = None)
   \<and> dashboard_counts cs
       = (count_list (map sentiment cs) ''Positive'',
          count_list (map sentiment cs) ''Negative'',
          count_list (map sentiment cs) ''Neutral'')"
proof -
  have "\<forall>n\<in>set (dict_values (Counter (map sentiment cs))). 1 \<le> n"
    and "\<forall>n\<in>set (dict_values (Counter (map original_language cs))). 1 \<le> n"
    using values_Counter_positive by blast+
  then show ?thesis
    by (simp add: get_analysis_summary_def Let_def keys_Counter distinct_Counter map_of_Counter
        dashboard_counts_def dict_get_Counter)
qed

theorem summary_distribution_keys_witness:
  "sentiment_distribution (get_analysis_summary sample_batch) = [(''Positive'', 3), (''Neutral'', 1)]
   \<and> language_distribution (get_analysis_summary sample_batch) = [(ustr ''en'', 4)]
   \<and> map_of (sentiment_distribution (get_analysis_summary sample_batch)) ''Negative'' = None
   \<and> map_of (language_distribution (get_analysis_summary sample_batch)) (ustr ''fr'') = None
   \<and> dashboard_counts sample_batch = (3, 0, 1)"
proof -
  have a: "''Negative'' \<notin> sentiment ` set sample_batch"
    by (simp add: sample_batch_def sample_processed_def)
  have a': "ustr ''fr'' \<notin> original_language ` set sample_batch"
    by (simp add: sample_batch_def sample_processed_def ustr_def)
  have b: "sentiment_distribution (get_analysis_summary sample_batch)
      = [(''Positive'', 3), (''Neutral'', 1)]"
    by (simp add: get_analysis_summary_def Let_def Counter_def sample_batch_def sample_processed_def)
  have b': "language_distribution (get_analysis_summary sample_batch) = [(ustr ''en'', 4)]"
    by (simp add: get_analysis_summary_def Let_def Counter_def sample_batch_def sample_processed_def)
  have c: "count_list (map sentiment sample_batch) ''Positive'' = 3"
      "count_list (map sentiment sample_batch) ''Negative'' = 0"
      "count_list (map sentiment sample_batch) ''Neutral'' = 1"
    by (simp_all add: sample_batch_def sample_processed_def)
  from a a' b b' c show ?thesis
    using summary_distribution_keys [of sample_batch "''Negative''" "ustr ''fr''"] by simp
qed

lemma length_ustr: "length (ustr s) = length s"
  by (simp add: ustr_def)

lemma excerpt_cases:
  "excerpt c = (if length (text c) > 100 then take 100 (text c) @ ustr ''...'' else text c)"
  by (simp add: excerpt_def slice_to_def)

lemma length_excerpt: "length (excerpt c) \<le> 103"
  by (simp add: excerpt_cases length_ustr)

text \<open>
  What holds of the summaries: the total and the sum of the sentiment counts are the number
  of comments; the samples of \<^verbatim>\<open>get_analysis_summary\<close> are the excerpts of the first three
  comments of each label, those of the API are the full texts of the first five.
\<close>

lemma get_analysis_summary_samples:
  "total_comments (get_analysis_summary cs) = length cs
   \<and> sum_list (dict_values (sentiment_distribution (get_analysis_summary cs))) = length cs
   \<and> positive (sample_comments (get_analysis_summary cs))
       = map excerpt (take 3 (filter (\<lambda>c. sentiment c = ''Positive'') cs))
   \<and> negative (sample_comments (get_analysis_summary cs))
       = map excerpt (take 3 (filter (\<lambda>c. sentiment c = ''Negative'') cs))
   \<and> neutral (sample_comments (get_analysis_summary cs))
       = map excerpt (take 3 (filter (\<lambda>c. sentiment c = ''Neutral'') cs))
   \<and> length (positive (sample_comments (get_analysis_summary cs))) \<le> 3
   \<and> length (negative (sample_comments (get_analysis_summary cs))) \<le> 3
   \<and> length (neutral (sample_comments (get_analysis_summary cs))) \<le> 3
   \<and> positive (api_sample_comments cs) = take 5 (map text (filter (\<lambda>c. sentiment c = ''Positive'') cs))
   \<and> negative (api_sample_comments cs) = take 5 (map text (filter (\<lambda>c. sentiment c = ''Negative'') cs))
   \<and> neutral (api_sample_comments cs) = take 5 (map text (filter (\<lambda>c. sentiment c = ''Neutral'') cs))
   \<and> length (positive (api_sample_comments cs)) \<le> 5
   \<and> length (negative (api_sample_comments cs)) \<le> 5
   \<and> length (neutral (api_sample_comments cs)) \<le> 5"
  by (simp add: get_analysis_summary_def api_sample_comments_def Let_def sum_Counter slice_to_def)

lemma length_long_text: "length long_text = 150"
  by (simp add: long_text_def length_ustr)

text \<open>
  C8: the counts, the caps and the order hold as claimed, and \<^verbatim>\<open>get_analysis_summary\<close> cuts a
  text of more than 100 characters to 100 characters and three dots. The response of
  \<^verbatim>\<open>app.api_analyze\<close> does not: for one positive comment of 150 characters the standalone
  summary holds the excerpt of 103 characters, the sample of the API the whole text.
\<close>

theorem api_sample_comments_untruncated:
  "sentiment long_comment = ''Positive'' \<and> text long_comment = long_text
   \<and> length long_text = 150
   \<and> positive (sample_comments (get_analysis_summary [long_comment]))
       = [take 100 long_text @ ustr ''...'']
   \<and> positive (api_sample_comments [long_comment]) = [long_text]
   \<and> length (hd (positive (api_sample_comments [long_comment]))) = 150"
  by (simp add: long_comment_def sample_processed_def get_analysis_summary_def
      api_sample_comments_def Let_def excerpt_cases slice_to_def length_long_text
      long_text_def [symmetric])

text \<open>
  \<^verbatim>\<open>sorted\<close> permutes the list, orders it by the key (downwards with \<^verbatim>\<open>reverse\<close>) and, either
  way, leaves the elements of equal key in the order they had.
\<close>

lemma sorted_py_forward:
  "mset (sorted_py key False xs) = mset xs"
  "sorted_wrt (\<lambda>a b. key a \<le> key b) (sorted_py key False xs)"
  "filter (\<lambda>x. key x = p) (sorted_py key False xs) = filter (\<lambda>x. key x = p) xs"
proof -
  show "mset (sorted_py key False xs) = mset xs" by (simp add: sorted_py_def)
  have "sorted (map key (sort_key key xs))" by (rule sorted_sort_key)
  then show "sorted_wrt (\<lambda>a b. key a \<le> key b) (sorted_py key False xs)"
    by (simp only: sorted_map sorted_py_def if_False)
  show "filter (\<lambda>x. key x = p) (sorted_py key False xs) = filter (\<lambda>x. key x = p) xs"
    by (simp only: sorted_py_def if_False sort_key_stable)
qed

lemma sorted_py_reverse:
  "mset (sorted_py key True xs) = mset xs"
  "sorted_wrt (\<lambda>a b. key b \<le> key a) (sorted_py key True xs)"
  "filter (\<lambda>x. key x = p) (sorted_py key True xs) = filter (\<lambda>x. key x = p) xs"
proof -
  show "mset (sorted_py key True xs) = mset xs" by (simp add: sorted_py_def)
  have "sorted (map key (sort_key key (rev xs)))" by (rule sorted_sort_key)
  then have "sorted_wrt (\<lambda>a b. key a \<le> key b) (sort_key key (rev xs))"
    by (simp only: sorted_map)
  then show "sorted_wrt (\<lambda>a b. key b \<le> key a) (sorted_py key True xs)"
    by (simp only: sorted_py_def if_True sorted_wrt_rev)
  have "filter (\<lambda>x. key x = p) (sorted_py key True xs)
      = rev (filter (\<lambda>x. key x = p) (sort_key key (rev xs)))"
    by (simp only: sorted_py_def if_True rev_filter)
  also have "\<dots> = rev (filter (\<lambda>x. key x = p) (rev xs))" by (simp only: sort_key_stable)
  also have "\<dots> = filter (\<lambda>x. key x = p) xs" by (simp only: rev_filter rev_rev_ident)
  finally show "filter (\<lambda>x. key x = p) (sorted_py key True xs) = filter (\<lambda>x. key x = p) xs" .
qed

text \<open>
  C9: for every list of processed comments, every label and every count \<open>K\<close>,
  \<^verbatim>\<open>get_top_comments\<close> returns the first \<open>K\<close> elements of a ranking of the comments of that
  label: the ranking is a permutation of them, ordered by polarity, downwards for the label
  \<^verbatim>\<open>'Positive'\<close> and upwards for \<^verbatim>\<open>'Negative'\<close> (and for any other label), and the comments of
  equal polarity stand in it in the order they had in the input.
\<close>

theorem get_top_comments_sorted_stable:
  "\<exists>ranked.
     get_top_comments cs label (int K) = take K ranked
     \<and> mset ranked = mset (filter (\<lambda>c. sentiment c = label) cs)
     \<and> (label = ''Positive'' \<longrightarrow> sorted_wrt (\<lambda>a b. polarity b \<le> polarity a) ranked)
     \<and> (label \<noteq> ''Positive'' \<longrightarrow> sorted_wrt (\<lambda>a b. polarity a \<le> polarity b) ranked)
     \<and> (\<forall>p. filter (\<lambda>c. polarity c = p) ranked
              = filter (\<lambda>c. polarity c = p) (filter (\<lambda>c. sentiment c = label) cs))"
proof (cases "label = ''Positive''")
  case True
  let ?r = "sorted_py polarity True (filter (\<lambda>c. sentiment c = label) cs)"
  have "get_top_comments cs label (int K) = take K ?r"
    using True by (simp add: get_top_comments_def Let_def slice_to_def)
  moreover have "mset ?r = mset (filter (\<lambda>c. sentiment c = label) cs)"
    by (rule sorted_py_reverse(1))
  moreover have "sorted_wrt (\<lambda>a b. polarity b \<le> polarity a) ?r"
    by (rule sorted_py_reverse(2))
  moreover have "\<forall>p. filter (\<lambda>c. polarity c = p) ?r
      = filter (\<lambda>c. polarity c = p) (filter (\<lambda>c. sentiment c = label) cs)"
    using sorted_py_reverse(3) [of polarity] by blast
  ultimately show ?thesis using True by blast
next
  case False
  let ?r = "sorted_py polarity False (filter (\<lambda>c. sentiment c = label) cs)"
  have "get_top_comments cs label (int K) = take K ?r"
    using False by (simp add: get_top_comments_def Let_def slice_to_def)
  moreover have "mset ?r = mset (filter (\<lambda>c. sentiment c = label) cs)"
    by (rule sorted_py_forward(1))
  moreover have "sorted_wrt (\<lambda>a b. polarity a \<le> polarity b) ?r"
    by (rule sorted_py_forward(2))
  moreover have "\<forall>p. filter (\<lambda>c. polarity c = p) ?r
      = filter (\<lambda>c. polarity c = p) (filter (\<lambda>c. sentiment c = label) cs)"
    using sorted_py_forward(3) [of polarity] by blast
  ultimately show ?thesis using False by blast
qed

theorem get_top_comments_sorted_stable_witness:
  "get_top_comments sample_batch ''Positive'' 2
     = [sample_processed ''superb'' ''Positive'' 0.8, sample_processed ''nice'' ''Positive'' 0.5]
   \<and> (\<exists>ranked. get_top_comments sample_batch ''Positive'' (int 2) = take 2 ranked
         \<and> sorted_wrt (\<lambda>a b. polarity b \<le> polarity a) ranked
         \<and> mset ranked = mset (filter (\<lambda>c. sentiment c = ''Positive'') sample_batch))"
proof -
  have "get_top_comments sample_batch ''Positive'' 2
     = [sample_processed ''superb'' ''Positive'' 0.8, sample_processed ''nice'' ''Positive'' 0.5]"
    by (simp add: get_top_comments_def Let_def sorted_py_def slice_to_def sample_batch_def
        sample_processed_def)
  then show ?thesis
    using get_top_comments_sorted_stable [of sample_batch "''Positive''" 2] by auto
qed

end
